theory Spec2Isabelle
  imports Main "HOL-Library.AList"
begin

section \<open>Python strings\<close>

text \<open>
  A Python \<open>str\<close> is modelled as a \<open>string\<close>, a list of characters; a \<open>char\<close> stands
  for a code point below 256, so \<open>length\<close> counts code points as Python's \<open>len\<close> does.
  Python integers are unbounded and are modelled as \<open>int\<close>.

  \<open>isspace\<close> is \<open>str.isspace\<close> on one character: the code points 9 to 13, 28 to 32,
  133 and 160 are the whitespace of that range.  \<open>strip\<close> is \<open>str.strip()\<close> without
  argument and \<open>rstrip_char\<close> is \<open>str.rstrip(c)\<close> for a one-character argument.
\<close>

definition isspace :: "char \<Rightarrow> bool" where
  "isspace c = (let n = (of_char c :: nat) in
     (9 \<le> n \<and> n \<le> 13) \<or> (28 \<le> n \<and> n \<le> 32) \<or> n = 133 \<or> n = 160)"

definition strip :: "string \<Rightarrow> string" where
  "strip s = rev (dropWhile isspace (rev (dropWhile isspace s)))"

text \<open>
  \<open>py_slice s lo hi\<close> is \<open>s[lo:hi]\<close>: a negative index counts from the end, and both
  indices are clamped to the string.
\<close>

definition py_slice :: "string \<Rightarrow> int \<Rightarrow> int \<Rightarrow> string" where
  "py_slice s lo hi =
     (let n = int (length s);
          lo' = (if lo < 0 then max (n + lo) 0 else min lo n);
          hi' = (if hi < 0 then max (n + hi) 0 else min hi n)
      in take (nat (hi' - lo')) (drop (nat lo') s))"

text \<open>
  \<open>rfind s sub\<close> is \<open>s.rfind(sub)\<close>: the highest index at which \<open>sub\<close> occurs in \<open>s\<close>,
  or \<open>-1\<close> when it does not occur.
\<close>

definition occurs_at :: "string \<Rightarrow> string \<Rightarrow> nat \<Rightarrow> bool" where
  "occurs_at s sub i = (take (length sub) (drop i s) = sub)"

fun rfind_from :: "string \<Rightarrow> string \<Rightarrow> nat \<Rightarrow> int" where
  "rfind_from s sub 0 = (if occurs_at s sub 0 then 0 else - 1)"
| "rfind_from s sub (Suc i) =
     (if occurs_at s sub (Suc i) then int (Suc i) else rfind_from s sub i)"

definition rfind :: "string \<Rightarrow> string \<Rightarrow> int" where
  "rfind s sub = rfind_from s sub (length s)"

section \<open>The chunker (\<open>pdf_parser.py\<close>)\<close>

text \<open>
  \<open>extract_text_from_pdf\<close> first reads the text of the pages with the PDF library and
  then splits it.  The model starts from \<open>full_text\<close>, the text read.

  \<^verbatim>\<open>
    for boundary in [". ", "? ", "! ", "\n"]:
        last_boundary = full_text[start:end].rfind(boundary)
        if last_boundary != -1:
            end = start + last_boundary + len(boundary)
            break
  \<close>
\<close>

definition boundaries :: "string list" where
  "boundaries = [''. '', ''? '', ''! '', [CHR 0x0A]]"

fun snap :: "string \<Rightarrow> int \<Rightarrow> int \<Rightarrow> string list \<Rightarrow> int" where
  "snap full_text start end [] = end"
| "snap full_text start end (boundary # bs) =
     (let last_boundary = rfind (py_slice full_text start end) boundary
      in if last_boundary \<noteq> - 1 then start + last_boundary + int (length boundary)
         else snap full_text start end bs)"

text \<open>
  \<^verbatim>\<open>
    end = start + chunk_size
    if end < len(full_text):
        <the loop over the boundaries>
  \<close>
\<close>

definition window_end :: "string \<Rightarrow> int \<Rightarrow> int \<Rightarrow> int" where
  "window_end full_text chunk_size start =
     (let end = start + chunk_size
      in if end < int (length full_text) then snap full_text start end boundaries else end)"

text \<open>
  \<^verbatim>\<open>
    next_start = end - overlap
    if next_start <= start:
        next_start = start + 1
  \<close>
\<close>

definition next_start :: "int \<Rightarrow> int \<Rightarrow> int \<Rightarrow> int" where
  "next_start start end overlap =
     (let ns = end - overlap in if ns \<le> start then start + 1 else ns)"

text \<open>
  The \<open>while start < len(full_text)\<close> loop.  It is defined as a partial function into
  \<open>option\<close>: a run of the loop that never left it would have the value \<open>None\<close>.
\<close>

partial_function (option) chunk_loop ::
  "string \<Rightarrow> int \<Rightarrow> int \<Rightarrow> int \<Rightarrow> string list \<Rightarrow> string list option" where
  "chunk_loop full_text chunk_size overlap start chunks =
     (if start < int (length full_text) then
        (let end = window_end full_text chunk_size start;
             chunk = strip (py_slice full_text start end)
         in chunk_loop full_text chunk_size overlap (next_start start end overlap)
              (if chunk \<noteq> [] then chunks @ [chunk] else chunks))
      else Some chunks)"

declare chunk_loop.simps [code]

definition chunk_text :: "string \<Rightarrow> int \<Rightarrow> int \<Rightarrow> string list option" where
  "chunk_text full_text chunk_size overlap =
     (if strip full_text = [] then Some []
      else chunk_loop full_text chunk_size overlap 0 [])"

text \<open>
  The chunker as the specification words it, for one window: the window is the
  \<open>target_size\<close> characters from \<open>start\<close>; the boundary kinds are tried in their order
  of priority; the first kind that occurs in the window decides, and the window then
  ends just after the last occurrence of that kind; a window without any boundary is
  kept whole.  \<open>occurrences w b\<close> lists, in increasing order, the positions of the
  window at which \<open>b\<close> occurs.
\<close>

definition occurrences :: "string \<Rightarrow> string \<Rightarrow> nat list" where
  "occurrences w b = filter (occurs_at w b) [0..<Suc (length w)]"

definition spec_window_end :: "string \<Rightarrow> int \<Rightarrow> int \<Rightarrow> int" where
  "spec_window_end full_text target_size start =
     (let w = take (nat target_size) (drop (nat start) full_text)
      in case find (\<lambda>b. occurrences w b \<noteq> []) boundaries of
           None \<Rightarrow> start + target_size
         | Some b \<Rightarrow> start + int (last (occurrences w b)) + int (length b))"

section \<open>Values and exceptions\<close>

text \<open>
  What \<open>json.loads\<close> returns, and what the code passes around as entities,
  relationships and query parameters, are untyped Python values: \<open>None\<close>, booleans,
  numbers, strings, lists and dictionaries.  A dictionary is an association list in the
  order of insertion with one entry per key; \<open>AList.update\<close> is \<open>d[k] = v\<close> (an existing
  key keeps its place, a new key goes to the end).  No operation of the code looks into
  a number, so an integer stands for it.
\<close>

datatype json =
    JNull
  | JBool bool
  | JNum int
  | JStr string
  | JArr "json list"
  | JObj "(string \<times> json) list"

text \<open>
  The subclasses of \<open>Exception\<close> the code meets.  A raise is the value \<open>Inl e\<close> of a
  result \<open>exn + 'a\<close>; a \<open>try\<close> with \<open>except Exception\<close> is a case distinction on it.
\<close>

datatype exn =
    TimeoutError
  | JSONDecodeError
  | AttributeError
  | TypeError
  | KeyError
  | OtherError string

text \<open>\<open>d.get(key, default)\<close>: only a dictionary has the method.\<close>

fun py_get :: "json \<Rightarrow> string \<Rightarrow> json \<Rightarrow> exn + json" where
  "py_get (JObj kvs) key dflt =
     Inr (case map_of kvs key of None \<Rightarrow> dflt | Some v \<Rightarrow> v)"
| "py_get _ key dflt = Inl AttributeError"

text \<open>\<open>d[key]\<close> on a record of a query result.\<close>

fun py_getitem :: "json \<Rightarrow> string \<Rightarrow> exn + json" where
  "py_getitem (JObj kvs) key =
     (case map_of kvs key of None \<Rightarrow> Inl KeyError | Some v \<Rightarrow> Inr v)"
| "py_getitem _ key = Inl TypeError"

text \<open>\<open>v.strip()\<close>: only a string has the method.\<close>

fun py_strip :: "json \<Rightarrow> exn + string" where
  "py_strip (JStr s) = Inr (strip s)"
| "py_strip _ = Inl AttributeError"

text \<open>\<open>len(v)\<close>.\<close>

fun py_len :: "json \<Rightarrow> exn + nat" where
  "py_len (JArr xs) = Inr (length xs)"
| "py_len (JStr s) = Inr (length s)"
| "py_len (JObj kvs) = Inr (length kvs)"
| "py_len _ = Inl TypeError"

text \<open>
  The items \<open>list.extend(v)\<close> appends: the elements of a list, the characters of a
  string, the keys of a dictionary.
\<close>

fun py_iter :: "json \<Rightarrow> exn + json list" where
  "py_iter (JArr xs) = Inr xs"
| "py_iter (JStr s) = Inr (map (\<lambda>c. JStr [c]) s)"
| "py_iter (JObj kvs) = Inr (map (\<lambda>kv. JStr (fst kv)) kvs)"
| "py_iter _ = Inl TypeError"

text \<open>The truth value of a value in \<open>if v:\<close>.\<close>

fun py_truthy :: "json \<Rightarrow> bool" where
  "py_truthy JNull = False"
| "py_truthy (JBool b) = b"
| "py_truthy (JNum n) = (n \<noteq> 0)"
| "py_truthy (JStr s) = (s \<noteq> [])"
| "py_truthy (JArr xs) = (xs \<noteq> [])"
| "py_truthy (JObj kvs) = (kvs \<noteq> [])"

text \<open>
  \<open>str.lower\<close>: below 256 the upper-case letters are the code points 65 to 90 and 192 to
  222 without 215, and each has its lower case 32 higher.
\<close>

definition lower_char :: "char \<Rightarrow> char" where
  "lower_char c = (let n = (of_char c :: nat) in
     if (65 \<le> n \<and> n \<le> 90) \<or> (192 \<le> n \<and> n \<le> 222 \<and> n \<noteq> 215)
     then char_of (n + 32) else c)"

definition lower :: "string \<Rightarrow> string" where
  "lower s = map lower_char s"

section \<open>Deduplication (\<open>build_knowledge_graph\<close>, lines 163 to 170)\<close>

text \<open>
  \<^verbatim>\<open>
    seen_entities: dict[str, dict] = {}
    for entity in all_entities:
        name = entity.get("name", "").strip()
        if name:
            seen_entities[name.lower()] = entity
    unique_entities = list(seen_entities.values())
  \<close>
\<close>

fun dedup_loop :: "json list \<Rightarrow> (string \<times> json) list \<Rightarrow> exn + (string \<times> json) list" where
  "dedup_loop [] seen_entities = Inr seen_entities"
| "dedup_loop (entity # rest) seen_entities =
     (case py_get entity ''name'' (JStr []) of
        Inl e \<Rightarrow> Inl e
      | Inr v \<Rightarrow>
          (case py_strip v of
             Inl e \<Rightarrow> Inl e
           | Inr name \<Rightarrow>
               dedup_loop rest
                 (if name \<noteq> [] then AList.update (lower name) entity seen_entities
                  else seen_entities)))"

definition deduplicate :: "json list \<Rightarrow> exn + (string \<times> json) list" where
  "deduplicate all_entities = dedup_loop all_entities []"

definition unique_entities :: "(string \<times> json) list \<Rightarrow> json list" where
  "unique_entities seen_entities = map snd seen_entities"

text \<open>
  An extracted entity of the data model: a dictionary whose \<open>name\<close>, when it has one, is
  a string.  Its normalisation key is the name trimmed and lower-cased; an entity
  whose name is missing or empty after trimming has none.
\<close>

fun is_entity :: "json \<Rightarrow> bool" where
  "is_entity (JObj kvs) =
     (case map_of kvs ''name'' of None \<Rightarrow> True | Some (JStr s) \<Rightarrow> True | Some _ \<Rightarrow> False)"
| "is_entity _ = False"

fun entity_key :: "json \<Rightarrow> string option" where
  "entity_key (JObj kvs) =
     (case map_of kvs ''name'' of
        Some (JStr s) \<Rightarrow> if strip s = [] then None else Some (lower (strip s))
      | _ \<Rightarrow> None)"
| "entity_key _ = None"

text \<open>The entities of a list that have the key \<open>k\<close>, in the order of the list.\<close>

definition with_key :: "string \<Rightarrow> json list \<Rightarrow> json list" where
  "with_key k es = filter (\<lambda>e. entity_key e = Some k) es"

section \<open>Per-chunk extraction (\<open>_parse_llm_json\<close>, \<open>_extract_with_timeout\<close>)\<close>

text \<open>Sequencing of steps that can raise: the first exception ends the sequence.\<close>

definition and_then :: "exn + 'a \<Rightarrow> ('a \<Rightarrow> exn + 'b) \<Rightarrow> exn + 'b" where
  "and_then r f = (case r of Inl e \<Rightarrow> Inl e | Inr x \<Rightarrow> f x)"

text \<open>
  \<open>re.sub(r"```(?:json)?\s*", "", text)\<close>: from left to right, every three backticks
  are removed together with a directly following \<open>json\<close>, if there is one, and all the
  whitespace after that; the scan goes on behind what was removed.
\<close>

function strip_fences :: "string \<Rightarrow> string" where
  "strip_fences [] = []"
| "strip_fences (c # cs) =
     (if take 3 (c # cs) = ''```'' then
        strip_fences
          (dropWhile isspace
             (if take 4 (drop 3 (c # cs)) = ''json'' then drop 7 (c # cs)
              else drop 3 (c # cs)))
      else c # strip_fences cs)"
  by pat_completeness auto
termination
proof (relation "measure length")
  show "wf (measure length)" by simp
next
  fix c :: char and cs :: string
  assume "take 3 (c # cs) = ''```''"
  let ?r = "if take 4 (drop 3 (c # cs)) = ''json'' then drop 7 (c # cs) else drop 3 (c # cs)"
  have "length (dropWhile isspace ?r) \<le> length ?r" by (rule length_dropWhile_le)
  also have "length ?r < length (c # cs)" by (simp add: less_Suc_eq_le)
  finally show "(dropWhile isspace ?r, c # cs) \<in> measure length" by simp
next
  fix c :: char and cs :: string
  show "(cs, c # cs) \<in> measure length" by simp
qed

definition rstrip_char :: "char \<Rightarrow> string \<Rightarrow> string" where
  "rstrip_char c s = rev (dropWhile (\<lambda>x. x = c) (rev s))"

text \<open>
  \<^verbatim>\<open>
    cleaned = re.sub(r"```(?:json)?\s*", "", text)
    cleaned = cleaned.strip().rstrip("`")
  \<close>
\<close>

definition clean_llm_text :: "string \<Rightarrow> string" where
  "clean_llm_text text = rstrip_char (CHR ''`'') (strip (strip_fences text))"

definition empty_result :: json where
  "empty_result = JObj [(''entities'', JArr []), (''relationships'', JArr [])]"

text \<open>
  \<open>json.loads\<close> is the library's parser and a parameter of the model: \<open>loads\<close> gives the
  value parsed or the exception raised.  \<open>_parse_llm_json\<close> catches \<open>JSONDecodeError\<close>
  only.
\<close>

definition parse_llm_json :: "(string \<Rightarrow> exn + json) \<Rightarrow> string \<Rightarrow> exn + json" where
  "parse_llm_json loads text =
     (case loads (clean_llm_text text) of
        Inl JSONDecodeError \<Rightarrow> Inr empty_result
      | Inl e \<Rightarrow> Inl e
      | Inr v \<Rightarrow> Inr v)"

text \<open>
  The body of the \<open>try\<close> of \<open>_extract_with_timeout\<close>.  \<open>response\<close> is what awaiting the
  model call under \<open>asyncio.wait_for\<close> gives: the text of the answer, or the exception
  raised (\<open>TimeoutError\<close> after the timeout).  The two \<open>len\<close> are those of the log line.
\<close>

definition extract_try :: "(string \<Rightarrow> exn + json) \<Rightarrow> exn + string \<Rightarrow> exn + json" where
  "extract_try loads response =
     and_then response (\<lambda>content.
     and_then (parse_llm_json loads content) (\<lambda>parsed.
     and_then (py_get parsed ''entities'' (JArr [])) (\<lambda>entities.
     and_then (py_get parsed ''relationships'' (JArr [])) (\<lambda>rels.
     and_then (py_len entities) (\<lambda>_.
     and_then (py_len rels) (\<lambda>_.
     Inr parsed))))))"

text \<open>
  \<^verbatim>\<open>
    except asyncio.TimeoutError:
        return {"entities": [], "relationships": []}
    except Exception as e:
        return {"entities": [], "relationships": []}
  \<close>
\<close>

fun extract_except :: "exn \<Rightarrow> exn + json" where
  "extract_except TimeoutError = Inr empty_result"
| "extract_except e = Inr empty_result"

definition extract_with_timeout :: "(string \<Rightarrow> exn + json) \<Rightarrow> exn + string \<Rightarrow> exn + json" where
  "extract_with_timeout loads response =
     (case extract_try loads response of
        Inl e \<Rightarrow> extract_except e
      | Inr parsed \<Rightarrow> Inr parsed)"

section \<open>Extraction over all chunks (\<open>build_knowledge_graph\<close>, lines 135 to 161)\<close>

text \<open>
  \<open>asyncio.gather(*tasks)\<close> returns the results of the tasks in the order of the tasks
  once all of them are done, and raises when a task raised.  The model takes the
  responses of the model calls, one for each chunk in the order of the chunks, as its
  input; how the tasks interleave is not part of it.
\<close>

fun gather :: "(exn + 'a) list \<Rightarrow> exn + 'a list" where
  "gather [] = Inr []"
| "gather (Inl e # rs) = Inl e"
| "gather (Inr x # rs) = (case gather rs of Inl e \<Rightarrow> Inl e | Inr xs \<Rightarrow> Inr (x # xs))"

text \<open>The items that \<open>extend(parsed.get(key, []))\<close> appends.\<close>

definition chunk_items :: "string \<Rightarrow> json \<Rightarrow> exn + json list" where
  "chunk_items key parsed = and_then (py_get parsed key (JArr [])) py_iter"

text \<open>
  \<^verbatim>\<open>
    for parsed in results:
        all_entities.extend(parsed.get("entities", []))
        all_relationships.extend(parsed.get("relationships", []))
  \<close>
\<close>

fun aggregate :: "json list \<Rightarrow> json list \<Rightarrow> json list \<Rightarrow> exn + json list \<times> json list" where
  "aggregate [] all_entities all_relationships = Inr (all_entities, all_relationships)"
| "aggregate (parsed # rest) all_entities all_relationships =
     (case chunk_items ''entities'' parsed of
        Inl e \<Rightarrow> Inl e
      | Inr es \<Rightarrow>
          (case chunk_items ''relationships'' parsed of
             Inl e \<Rightarrow> Inl e
           | Inr rs \<Rightarrow> aggregate rest (all_entities @ es) (all_relationships @ rs)))"

definition extract_all ::
  "(string \<Rightarrow> exn + json) \<Rightarrow> (exn + string) list \<Rightarrow> exn + json list \<times> json list" where
  "extract_all loads responses =
     and_then (gather (map (extract_with_timeout loads) responses))
       (\<lambda>results. aggregate results [] [])"

text \<open>
  What one chunk contributes to \<open>all_entities\<close> (key \<open>entities\<close>) and to
  \<open>all_relationships\<close> (key \<open>relationships\<close>): the items of its extraction result.
\<close>

definition contribution :: "string \<Rightarrow> (string \<Rightarrow> exn + json) \<Rightarrow> exn + string \<Rightarrow> json list" where
  "contribution key loads response =
     (case and_then (extract_with_timeout loads response) (chunk_items key) of
        Inl e \<Rightarrow> []
      | Inr xs \<Rightarrow> xs)"

text \<open>
  The list that a per-chunk result holds under a key, read off the value itself:
  the elements of a list, nothing when the key is missing, the characters of a string
  and the keys of a dictionary (what Python iterates over).
\<close>

fun spec_items :: "string \<Rightarrow> json \<Rightarrow> json list" where
  "spec_items key (JObj kvs) =
     (case map_of kvs key of
        Some (JArr xs) \<Rightarrow> xs
      | Some (JStr s) \<Rightarrow> map (\<lambda>c. JStr [c]) s
      | Some (JObj m) \<Rightarrow> map (\<lambda>kv. JStr (fst kv)) m
      | _ \<Rightarrow> [])"
| "spec_items key _ = []"

section \<open>The graph writer (\<open>build_knowledge_graph\<close>, lines 172 to 245)\<close>

text \<open>
  The code talks to the graph store through \<open>execute_query(query, parameters)\<close> with
  five query texts.  A query of the model is the query text, named by a constructor,
  with its parameters: the node upsert (\<open>MERGE (n:Entity {name: $name}) SET ...\<close>), the
  relationship upsert through \<open>apoc.merge.relationship\<close>, the relationship upsert with
  the static kind \<open>RELATED_TO\<close>, the entity search and the read of all entities.
\<close>

datatype query =
    MergeNode json json json string
  | MergeRelationshipApoc string string string json
  | MergeRelatedTo string string string json
  | SearchEntities string
  | AllEntities

text \<open>
  In the writer and in the retriever \<open>execute_query\<close> is a parameter: it takes the query
  and the state of the store and gives the records returned, or the exception raised,
  and the state the store is left in.

  \<^verbatim>\<open>
    try:
        await execute_query(query, {
            "name": entity.get("name", "Unknown"),
            "type": entity.get("type", "UNKNOWN"),
            "description": entity.get("description", ""),
            "document": document_name,
        })
        nodes_created += 1
    except Exception as e:
        logger.warning(f"... Node write failed for {entity.get('name')}: {e}")
  \<close>
\<close>

definition node_query :: "json \<Rightarrow> string \<Rightarrow> exn + query" where
  "node_query entity document_name =
     and_then (py_get entity ''name'' (JStr ''Unknown'')) (\<lambda>name.
     and_then (py_get entity ''type'' (JStr ''UNKNOWN'')) (\<lambda>type.
     and_then (py_get entity ''description'' (JStr [])) (\<lambda>description.
     Inr (MergeNode name type description document_name))))"

definition node_except :: "json \<Rightarrow> 'st \<Rightarrow> nat \<Rightarrow> exn + 'st \<times> nat" where
  "node_except entity st nodes_created =
     and_then (py_get entity ''name'' JNull) (\<lambda>_. Inr (st, nodes_created))"

definition write_node ::
  "(query \<Rightarrow> 'st \<Rightarrow> (exn + json list) \<times> 'st) \<Rightarrow> string \<Rightarrow> json \<Rightarrow> 'st \<Rightarrow> nat
     \<Rightarrow> exn + 'st \<times> nat" where
  "write_node execute_query document_name entity st nodes_created =
     (case node_query entity document_name of
        Inl e \<Rightarrow> node_except entity st nodes_created
      | Inr q \<Rightarrow>
          (case execute_query q st of
             (Inl e, st') \<Rightarrow> node_except entity st' nodes_created
           | (Inr rows, st') \<Rightarrow> Inr (st', nodes_created + 1)))"

fun write_nodes ::
  "(query \<Rightarrow> 'st \<Rightarrow> (exn + json list) \<times> 'st) \<Rightarrow> string \<Rightarrow> json list \<Rightarrow> 'st \<Rightarrow> nat
     \<Rightarrow> exn + 'st \<times> nat" where
  "write_nodes execute_query document_name [] st nodes_created = Inr (st, nodes_created)"
| "write_nodes execute_query document_name (entity # rest) st nodes_created =
     (case write_node execute_query document_name entity st nodes_created of
        Inl e \<Rightarrow> Inl e
      | Inr (st', n) \<Rightarrow> write_nodes execute_query document_name rest st' n)"

text \<open>
  \<open>rel.get("type", "RELATED_TO").replace(" ", "_").upper()\<close>.  Upper-casing takes three
  code points below 256 out of that range, so \<open>str.upper\<close> is a parameter, \<open>upper\<close>.
\<close>

definition replace_space :: "string \<Rightarrow> string" where
  "replace_space s = map (\<lambda>c. if c = CHR '' '' then CHR ''_'' else c) s"

fun py_rel_type :: "(string \<Rightarrow> string) \<Rightarrow> json \<Rightarrow> exn + string" where
  "py_rel_type upper (JStr s) = Inr (upper (replace_space s))"
| "py_rel_type upper _ = Inl AttributeError"

text \<open>
  \<^verbatim>\<open>
    source = rel.get("source", "").strip()
    target = rel.get("target", "").strip()
    rel_type = rel.get("type", "RELATED_TO").replace(" ", "_").upper()
    description = rel.get("description", "")
    if not source or not target:
        continue
    try:
        await execute_query(<apoc query>, {...})
        rels_created += 1
    except Exception as apoc_err:
        try:
            await execute_query(<RELATED_TO query>, {...})
            rels_created += 1
        except Exception as e:
            logger.warning(...)
  \<close>
\<close>

definition write_relationship ::
  "(query \<Rightarrow> 'st \<Rightarrow> (exn + json list) \<times> 'st) \<Rightarrow> (string \<Rightarrow> string) \<Rightarrow> json \<Rightarrow> 'st \<Rightarrow> nat
     \<Rightarrow> exn + 'st \<times> nat" where
  "write_relationship execute_query upper rel st rels_created =
     and_then (py_get rel ''source'' (JStr [])) (\<lambda>sv.
     and_then (py_strip sv) (\<lambda>source.
     and_then (py_get rel ''target'' (JStr [])) (\<lambda>tv.
     and_then (py_strip tv) (\<lambda>target.
     and_then (py_get rel ''type'' (JStr ''RELATED_TO'')) (\<lambda>ty.
     and_then (py_rel_type upper ty) (\<lambda>rel_type.
     and_then (py_get rel ''description'' (JStr [])) (\<lambda>description.
       if source = [] \<or> target = [] then Inr (st, rels_created)
       else
         (case execute_query (MergeRelationshipApoc source target rel_type description) st of
            (Inr rows, st') \<Rightarrow> Inr (st', rels_created + 1)
          | (Inl apoc_err, st') \<Rightarrow>
              (case execute_query (MergeRelatedTo source target rel_type description) st' of
                 (Inr rows, st'') \<Rightarrow> Inr (st'', rels_created + 1)
               | (Inl e, st'') \<Rightarrow> Inr (st'', rels_created))))))))))"

fun write_relationships ::
  "(query \<Rightarrow> 'st \<Rightarrow> (exn + json list) \<times> 'st) \<Rightarrow> (string \<Rightarrow> string) \<Rightarrow> json list \<Rightarrow> 'st \<Rightarrow> nat
     \<Rightarrow> exn + 'st \<times> nat" where
  "write_relationships execute_query upper [] st rels_created = Inr (st, rels_created)"
| "write_relationships execute_query upper (rel # rest) st rels_created =
     (case write_relationship execute_query upper rel st rels_created of
        Inl e \<Rightarrow> Inl e
      | Inr (st', n) \<Rightarrow> write_relationships execute_query upper rest st' n)"

text \<open>
  Lines 163 to 245: deduplication, the node writes, then the relationship writes.  The
  result is the state of the store with \<open>nodes_created\<close> and \<open>relationships_created\<close>.
\<close>

definition write_graph ::
  "(query \<Rightarrow> 'st \<Rightarrow> (exn + json list) \<times> 'st) \<Rightarrow> (string \<Rightarrow> string) \<Rightarrow> string \<Rightarrow>
     json list \<Rightarrow> json list \<Rightarrow> 'st \<Rightarrow> exn + 'st \<times> nat \<times> nat" where
  "write_graph execute_query upper document_name all_entities all_relationships st =
     and_then (deduplicate all_entities) (\<lambda>seen_entities.
     and_then (write_nodes execute_query document_name (unique_entities seen_entities) st 0)
       (\<lambda>(st1, nodes_created).
     and_then (write_relationships execute_query upper all_relationships st1 0)
       (\<lambda>(st2, rels_created).
     Inr (st2, nodes_created, rels_created))))"

definition build_knowledge_graph ::
  "(query \<Rightarrow> 'st \<Rightarrow> (exn + json list) \<times> 'st) \<Rightarrow> (string \<Rightarrow> string) \<Rightarrow>
     (string \<Rightarrow> exn + json) \<Rightarrow> (exn + string) list \<Rightarrow> string \<Rightarrow> 'st
     \<Rightarrow> exn + 'st \<times> nat \<times> nat" where
  "build_knowledge_graph execute_query upper loads responses document_name st =
     and_then (extract_all loads responses) (\<lambda>(all_entities, all_relationships).
     write_graph execute_query upper document_name all_entities all_relationships st)"

text \<open>
  A relationship of the data model: a dictionary whose \<open>source\<close>, \<open>target\<close> and \<open>type\<close>,
  when present, are strings.  \<open>rel_endpoint key rel\<close> is its source or target name
  after trimming, empty when the name is missing.
\<close>

definition str_or_missing :: "(string \<times> json) list \<Rightarrow> string \<Rightarrow> bool" where
  "str_or_missing kvs key =
     (case map_of kvs key of None \<Rightarrow> True | Some (JStr s) \<Rightarrow> True | Some _ \<Rightarrow> False)"

fun is_relationship :: "json \<Rightarrow> bool" where
  "is_relationship (JObj kvs) =
     (str_or_missing kvs ''source'' \<and> str_or_missing kvs ''target''
      \<and> str_or_missing kvs ''type'')"
| "is_relationship _ = False"

fun rel_endpoint :: "string \<Rightarrow> json \<Rightarrow> string" where
  "rel_endpoint key (JObj kvs) =
     (case map_of kvs key of Some (JStr s) \<Rightarrow> strip s | _ \<Rightarrow> [])"
| "rel_endpoint key _ = []"

section \<open>The graph store\<close>

text \<open>
  Modelled from the spec: \<open>execute_query\<close> of \<open>app/neo4j_driver.py\<close> and the store behind
  it are not among the source files.  The store holds \<open>Entity\<close> nodes with the
  properties \<open>name\<close> (the identity key), \<open>type\<close>, \<open>description\<close> and \<open>document\<close>, and
  directed relationships between two nodes with a kind and properties.  The five
  queries act as their texts in the source say:

  \<^item> the node upsert matches or creates the node by name and overwrites its other
    properties;
  \<^item> a relationship upsert first matches the two end nodes by name, and does nothing
    when one of them does not exist: the query then succeeds with no record;
  \<^item> the upsert through \<open>apoc.merge.relationship\<close> raises when the store does not have
    the procedure (\<open>apoc\<close> is false); otherwise it matches or creates the relationship
    of the given kind and description between the two nodes and returns one record;
  \<^item> the static upsert matches or creates the \<open>RELATED_TO\<close> relationship between the
    two nodes and sets its properties \<open>type\<close> and \<open>description\<close>;
  \<^item> the search returns the first 10 nodes whose name or description (when it is a
    string) contains the query, case-insensitively, each with its neighbourhood; the read of all entities
    returns the first 20 nodes with their neighbourhoods.  Rows come in the order in
    which the store holds the nodes.
\<close>

record node_props =
  n_type :: json
  n_description :: json
  n_document :: string

record edge =
  e_source :: string
  e_kind :: string
  e_target :: string
  e_props :: "(string \<times> json) list"

record graph =
  nodes :: "(string \<times> node_props) list"
  edges :: "edge list"

definition empty_graph :: graph where
  "empty_graph = \<lparr>nodes = [], edges = []\<rparr>"

definition has_node :: "graph \<Rightarrow> string \<Rightarrow> bool" where
  "has_node g name = (map_of (nodes g) name \<noteq> None)"

definition merge_node :: "string \<Rightarrow> node_props \<Rightarrow> graph \<Rightarrow> graph" where
  "merge_node name props g = g\<lparr>nodes := AList.update name props (nodes g)\<rparr>"

definition merge_edge_apoc :: "string \<Rightarrow> string \<Rightarrow> string \<Rightarrow> json \<Rightarrow> graph \<Rightarrow> graph" where
  "merge_edge_apoc source target rel_type description g =
     (let e = \<lparr>e_source = source, e_kind = rel_type, e_target = target,
                e_props = [(''description'', description)]\<rparr>
      in if e \<in> set (edges g) then g else g\<lparr>edges := edges g @ [e]\<rparr>)"

definition is_related_to :: "string \<Rightarrow> string \<Rightarrow> edge \<Rightarrow> bool" where
  "is_related_to source target e =
     (e_source e = source \<and> e_kind e = ''RELATED_TO'' \<and> e_target e = target)"

definition merge_edge_static :: "string \<Rightarrow> string \<Rightarrow> string \<Rightarrow> json \<Rightarrow> graph \<Rightarrow> graph" where
  "merge_edge_static source target rel_type description g =
     (let set_props = (\<lambda>ps. AList.update ''description'' description
                              (AList.update ''type'' (JStr rel_type) ps))
      in if list_ex (is_related_to source target) (edges g)
         then g\<lparr>edges := map (\<lambda>e. if is_related_to source target e
                                    then e\<lparr>e_props := set_props (e_props e)\<rparr> else e)
                               (edges g)\<rparr>
         else g\<lparr>edges := edges g @
                  [\<lparr>e_source = source, e_kind = ''RELATED_TO'', e_target = target,
                    e_props = set_props []\<rparr>]\<rparr>)"

text \<open>
  The neighbourhood of a node: one map for each relationship to or from another
  \<open>Entity\<close> node, without duplicates; a node without relationship has the one map of
  nulls that \<open>OPTIONAL MATCH\<close> with \<open>collect\<close> gives.
\<close>

definition connection :: "graph \<Rightarrow> string \<Rightarrow> string \<Rightarrow> json list" where
  "connection g kind other =
     (case map_of (nodes g) other of
        None \<Rightarrow> []
      | Some props \<Rightarrow>
          [JObj [(''related_entity'', JStr other), (''related_type'', n_type props),
                 (''relationship'', JStr kind),
                 (''related_description'', n_description props)]])"

definition null_connection :: json where
  "null_connection =
     JObj [(''related_entity'', JNull), (''related_type'', JNull),
           (''relationship'', JNull), (''related_description'', JNull)]"

definition connections :: "graph \<Rightarrow> string \<Rightarrow> json list" where
  "connections g name =
     (let cs = remdups (concat (map (\<lambda>e.
                  if e_source e = name then connection g (e_kind e) (e_target e)
                  else if e_target e = name then connection g (e_kind e) (e_source e)
                  else []) (edges g)))
      in if cs = [] then [null_connection] else cs)"

definition entity_row :: "graph \<Rightarrow> string \<times> node_props \<Rightarrow> json" where
  "entity_row g n =
     JObj [(''entity'', JStr (fst n)), (''type'', n_type (snd n)),
           (''description'', n_description (snd n)),
           (''connections'', JArr (connections g (fst n)))]"

text \<open>Case-insensitive substring match of the query against a name or a description.\<close>

definition contains_lower :: "string \<Rightarrow> string \<Rightarrow> bool" where
  "contains_lower s query = (occurrences (lower s) (lower query) \<noteq> [])"

definition node_matches :: "string \<Rightarrow> string \<times> node_props \<Rightarrow> bool" where
  "node_matches query n =
     (contains_lower (fst n) query
      \<or> (case n_description (snd n) of JStr d \<Rightarrow> contains_lower d query | _ \<Rightarrow> False))"

definition matching_nodes :: "graph \<Rightarrow> string \<Rightarrow> (string \<times> node_props) list" where
  "matching_nodes g query = filter (node_matches query) (nodes g)"

fun neo4j_execute :: "bool \<Rightarrow> query \<Rightarrow> graph \<Rightarrow> (exn + json list) \<times> graph" where
  "neo4j_execute apoc (MergeNode (JStr name) type description document) g =
     (Inr [], merge_node name
                \<lparr>n_type = type, n_description = description, n_document = document\<rparr> g)"
| "neo4j_execute apoc (MergeNode _ type description document) g =
     (Inl (OtherError ''node name is not a string''), g)"
| "neo4j_execute apoc (MergeRelationshipApoc source target rel_type description) g =
     (if \<not> apoc then (Inl (OtherError ''unknown procedure apoc.merge.relationship''), g)
      else if has_node g source \<and> has_node g target
      then (Inr [JObj [(''rel'', JStr rel_type)]],
            merge_edge_apoc source target rel_type description g)
      else (Inr [], g))"
| "neo4j_execute apoc (MergeRelatedTo source target rel_type description) g =
     (if has_node g source \<and> has_node g target
      then (Inr [], merge_edge_static source target rel_type description g)
      else (Inr [], g))"
| "neo4j_execute apoc (SearchEntities query) g =
     (Inr (map (entity_row g) (take 10 (matching_nodes g query))), g)"
| "neo4j_execute apoc AllEntities g =
     (Inr (map (entity_row g) (take 20 (nodes g))), g)"

section \<open>Subgraph retrieval (\<open>_retrieve_subgraph\<close> of \<open>chat_engine.py\<close>)\<close>

text \<open>
  \<open>str(v)\<close> inside an f-string: a string is itself, \<open>None\<close> and the booleans have their
  names; how Python prints a number or a container is the parameter \<open>repr\<close>.  The
  arrow of the relationship lines is the code point 8594, outside the range of \<open>char\<close>;
  it is written as the three bytes of its UTF-8 encoding.
\<close>

fun py_str :: "(json \<Rightarrow> string) \<Rightarrow> json \<Rightarrow> string" where
  "py_str repr (JStr s) = s"
| "py_str repr JNull = ''None''"
| "py_str repr (JBool b) = (if b then ''True'' else ''False'')"
| "py_str repr v = repr v"

definition arrow :: string where
  "arrow = [CHR 0xE2, CHR 0x86, CHR 0x92]"

definition newline :: string where
  "newline = [CHR 0x0A]"

text \<open>\<open>sep.join(parts)\<close>.\<close>

fun py_join :: "string \<Rightarrow> string list \<Rightarrow> string" where
  "py_join sep [] = []"
| "py_join sep [x] = x"
| "py_join sep (x # y # ys) = x @ sep @ py_join sep (y # ys)"

text \<open>
  \<^verbatim>\<open>
    for conn in connections:
        if conn.get("related_entity"):
            conn_lines.append(
                f"  -> {conn['relationship']} -> {conn['related_entity']} ({conn['related_type']})")
  \<close>
\<close>

definition conn_line :: "(json \<Rightarrow> string) \<Rightarrow> json \<Rightarrow> exn + string list" where
  "conn_line repr conn =
     and_then (py_get conn ''related_entity'' JNull) (\<lambda>related.
       if py_truthy related then
         and_then (py_getitem conn ''relationship'') (\<lambda>relationship.
         and_then (py_getitem conn ''related_entity'') (\<lambda>related_entity.
         and_then (py_getitem conn ''related_type'') (\<lambda>related_type.
         Inr [''  '' @ arrow @ '' '' @ py_str repr relationship @ '' '' @ arrow @ '' ''
              @ py_str repr related_entity @ '' ('' @ py_str repr related_type @ '')''])))
       else Inr [])"

fun conn_lines :: "(json \<Rightarrow> string) \<Rightarrow> json list \<Rightarrow> exn + string list" where
  "conn_lines repr [] = Inr []"
| "conn_lines repr (conn # rest) =
     (case conn_line repr conn of
        Inl e \<Rightarrow> Inl e
      | Inr l \<Rightarrow> (case conn_lines repr rest of Inl e \<Rightarrow> Inl e | Inr ls \<Rightarrow> Inr (l @ ls)))"

text \<open>
  \<^verbatim>\<open>
    entity_info = f"Entity: {record['entity']} (Type: {record['type']})"
    if record.get("description"):
        entity_info += f"\n  Description: {record['description']}"
    connections = record.get("connections", [])
    if connections:
        <conn_lines>
        if conn_lines:
            entity_info += "\n  Relationships:\n" + "\n".join(conn_lines)
    context_parts.append(entity_info)
  \<close>
\<close>

definition render_record :: "(json \<Rightarrow> string) \<Rightarrow> json \<Rightarrow> exn + string" where
  "render_record repr record =
     and_then (py_getitem record ''entity'') (\<lambda>entity.
     and_then (py_getitem record ''type'') (\<lambda>type.
     and_then (py_get record ''description'' JNull) (\<lambda>description.
     and_then
       (if py_truthy description then
          and_then (py_getitem record ''description'') (\<lambda>d.
          Inr (''Entity: '' @ py_str repr entity @ '' (Type: '' @ py_str repr type @ '')''
               @ newline @ ''  Description: '' @ py_str repr d))
        else
          Inr (''Entity: '' @ py_str repr entity @ '' (Type: '' @ py_str repr type @ '')''))
       (\<lambda>entity_info.
     and_then (py_get record ''connections'' (JArr [])) (\<lambda>connections.
       if py_truthy connections then
         and_then (py_iter connections) (\<lambda>conns.
         and_then (conn_lines repr conns) (\<lambda>ls.
         Inr (if ls \<noteq> [] then entity_info @ newline @ ''  Relationships:'' @ newline
                                @ py_join newline ls
              else entity_info)))
       else Inr entity_info)))))"

fun render_records :: "(json \<Rightarrow> string) \<Rightarrow> json list \<Rightarrow> exn + string list" where
  "render_records repr [] = Inr []"
| "render_records repr (record # rest) =
     (case render_record repr record of
        Inl e \<Rightarrow> Inl e
      | Inr part \<Rightarrow>
          (case render_records repr rest of Inl e \<Rightarrow> Inl e | Inr parts \<Rightarrow> Inr (part # parts)))"

definition sentinel :: string where
  "sentinel = ''No relevant information found in the knowledge graph.''"

text \<open>
  \<^verbatim>\<open>
    results = await execute_query(search_query, params)
    if not results:
        results = await execute_query(fallback_query)
    <context_parts: one part for each record>
    return "\n\n".join(context_parts) if context_parts else "No relevant ..."
  \<close>
\<close>

definition retrieve_subgraph ::
  "(query \<Rightarrow> 'st \<Rightarrow> (exn + json list) \<times> 'st) \<Rightarrow> (json \<Rightarrow> string) \<Rightarrow> string \<Rightarrow> 'st
     \<Rightarrow> exn + string" where
  "retrieve_subgraph execute_query repr query st =
     (case execute_query (SearchEntities query) st of
        (Inl e, st1) \<Rightarrow> Inl e
      | (Inr found, st1) \<Rightarrow>
          and_then
            (if found = [] then
               (case execute_query AllEntities st1 of
                  (Inl e, st2) \<Rightarrow> Inl e
                | (Inr sample, st2) \<Rightarrow> Inr sample)
             else Inr found)
            (\<lambda>results.
          and_then (render_records repr results) (\<lambda>context_parts.
          Inr (if context_parts \<noteq> [] then py_join (newline @ newline) context_parts
               else sentinel))))"

section \<open>Properties of the string operations\<close>

lemma length_strip: "length (strip s) \<le> length s"
proof -
  have "length (strip s) \<le> length (dropWhile isspace s)"
    unfolding strip_def using length_dropWhile_le[of isspace "rev (dropWhile isspace s)"]
    by simp
  also have "\<dots> \<le> length s" by (rule length_dropWhile_le)
  finally show ?thesis .
qed

lemma length_py_slice:
  "0 \<le> lo \<Longrightarrow> lo \<le> hi \<Longrightarrow> int (length (py_slice s lo hi)) \<le> hi - lo"
  by (auto simp: py_slice_def Let_def min_def max_def)

lemma py_slice_inside:
  "0 \<le> lo \<Longrightarrow> lo \<le> hi \<Longrightarrow> hi \<le> int (length s) \<Longrightarrow>
   py_slice s lo hi = take (nat (hi - lo)) (drop (nat lo) s)"
  by (auto simp: py_slice_def Let_def min_def max_def)

lemma occurs_at_bound:
  assumes "occurs_at s sub i" and "i \<le> length s"
  shows "i + length sub \<le> length s"
proof -
  have "length (take (length sub) (drop i s)) = length sub"
    using assms(1) by (simp add: occurs_at_def)
  hence "length sub \<le> length s - i" by simp
  with assms(2) show ?thesis by simp
qed

text \<open>An occurrence at \<open>i\<close> is a decomposition of the string around \<open>sub\<close>.\<close>

lemma occurs_at_iff:
  "occurs_at s sub i \<and> i \<le> length s \<longleftrightarrow>
   (\<exists>pre post. s = pre @ sub @ post \<and> length pre = i)"
proof
  assume a: "occurs_at s sub i \<and> i \<le> length s"
  have "s = take i s @ take (length sub) (drop i s) @ drop (length sub) (drop i s)"
    by (metis append_take_drop_id)
  with a show "\<exists>pre post. s = pre @ sub @ post \<and> length pre = i"
    unfolding occurs_at_def by (metis length_take min.absorb2)
next
  assume "\<exists>pre post. s = pre @ sub @ post \<and> length pre = i"
  then show "occurs_at s sub i \<and> i \<le> length s"
    by (auto simp: occurs_at_def)
qed

lemma rfind_from_filter:
  "rfind_from s sub n =
     (let ps = filter (occurs_at s sub) [0..<Suc n]
      in if ps = [] then - 1 else int (last ps))"
  by (induction n) (auto simp: Let_def)

lemma rfind_occurrences:
  "rfind s sub = (if occurrences s sub = [] then - 1 else int (last (occurrences s sub)))"
  by (simp add: rfind_def occurrences_def rfind_from_filter Let_def)

lemma rfind_bound:
  assumes "rfind s sub \<noteq> - 1"
  shows "0 \<le> rfind s sub \<and> rfind s sub + int (length sub) \<le> int (length s)"
proof -
  from assms have ne: "occurrences s sub \<noteq> []" and
    eq: "rfind s sub = int (last (occurrences s sub))"
    by (auto simp: rfind_occurrences split: if_splits)
  from ne have "last (occurrences s sub) \<in> set (occurrences s sub)" by (rule last_in_set)
  hence "occurs_at s sub (last (occurrences s sub))" "last (occurrences s sub) \<le> length s"
    by (auto simp: occurrences_def)
  from occurs_at_bound[OF this] show ?thesis using eq by simp
qed

section \<open>Properties of the chunker\<close>

lemma next_start_gt: "start < next_start start e overlap"
  by (simp add: next_start_def Let_def)

lemma chunk_loop_returns: "\<exists>r. chunk_loop t cs ov s acc = Some r"
proof (induction "nat (int (length t) - s)" arbitrary: s acc rule: less_induct)
  case less
  show ?case
  proof (cases "s < int (length t)")
    case True
    let ?e = "window_end t cs s"
    have "s < next_start s ?e ov" by (rule next_start_gt)
    hence "nat (int (length t) - next_start s ?e ov) < nat (int (length t) - s)"
      using True by linarith
    from less[OF this] show ?thesis
      using True by (subst chunk_loop.simps) (simp add: Let_def)
  next
    case False
    thus ?thesis by (subst chunk_loop.simps) simp
  qed
qed

text \<open>
  C2.  Whatever the text, the chunk size and the overlap are (an overlap at least as
  large as the chunk size included), the start offset of the next iteration is
  \<open>end - overlap\<close> when that is beyond the current start and \<open>start + 1\<close> otherwise, so
  it is strictly greater than the current start in every iteration; and the chunking
  loop leaves with a list of chunks on every input.
\<close>

theorem chunker_start_increases_and_terminates:
  "next_start start (window_end full_text chunk_size start) overlap =
     (if window_end full_text chunk_size start - overlap \<le> start then start + 1
      else window_end full_text chunk_size start - overlap)
   \<and> start < next_start start (window_end full_text chunk_size start) overlap
   \<and> (\<exists>chunks. chunk_loop full_text chunk_size overlap start acc = Some chunks)
   \<and> (\<exists>chunks. chunk_text full_text chunk_size overlap = Some chunks)"
proof -
  have "\<exists>chunks. chunk_text full_text chunk_size overlap = Some chunks"
    using chunk_loop_returns[of full_text chunk_size overlap 0 "[]"]
    by (simp add: chunk_text_def)
  thus ?thesis
    using chunk_loop_returns[of full_text chunk_size overlap start acc]
      next_start_gt[of start "window_end full_text chunk_size start" overlap]
    by (simp add: next_start_def Let_def)
qed

theorem chunker_start_increases_and_terminates_witness:
  "next_start 0 (window_end ''Hello world. How are you? Fine! ok'' 10 0) 20 = 1
   \<and> (\<exists>chunks. chunk_text ''Hello world. How are you? Fine! ok'' 10 20 = Some chunks)"
  using chunker_start_increases_and_terminates
          [of 0 "''Hello world. How are you? Fine! ok''" 10 20 "[]"]
  by (simp add: window_end_def py_slice_def rfind_def occurs_at_def boundaries_def)

lemma snap_bound:
  "0 \<le> start \<Longrightarrow> start \<le> e \<Longrightarrow> snap t start e bs \<le> e \<and> start \<le> snap t start e bs"
proof (induction bs)
  case Nil
  then show ?case by simp
next
  case (Cons b bs)
  let ?w = "py_slice t start e"
  show ?case
  proof (cases "rfind ?w b = - 1")
    case True
    with Cons show ?thesis by simp
  next
    case False
    from rfind_bound[OF False] length_py_slice[OF Cons.prems, of t]
    show ?thesis using False by (simp add: Let_def)
  qed
qed

lemma window_end_bound:
  "0 \<le> start \<Longrightarrow> 0 < cs \<Longrightarrow>
   start \<le> window_end t cs start \<and> window_end t cs start \<le> start + cs"
  using snap_bound[of start "start + cs" t boundaries]
  by (simp add: window_end_def Let_def)

lemma chunk_loop_bounded:
  "chunk_loop t cs ov s acc = Some r \<Longrightarrow> 0 \<le> s \<Longrightarrow> 0 < cs \<Longrightarrow>
   \<forall>c\<in>set acc. int (length c) \<le> cs \<Longrightarrow> \<forall>c\<in>set r. int (length c) \<le> cs"
proof (induction "nat (int (length t) - s)" arbitrary: s acc rule: less_induct)
  case less
  show ?case
  proof (cases "s < int (length t)")
    case True
    let ?e = "window_end t cs s"
    let ?c = "strip (py_slice t s ?e)"
    let ?acc = "if ?c \<noteq> [] then acc @ [?c] else acc"
    have gt: "s < next_start s ?e ov" by (rule next_start_gt)
    hence m: "nat (int (length t) - next_start s ?e ov) < nat (int (length t) - s)"
      using True by linarith
    have step: "chunk_loop t cs ov (next_start s ?e ov) ?acc = Some r"
      using less.prems(1) True by (subst (asm) chunk_loop.simps) (simp add: Let_def)
    have we: "s \<le> ?e" "?e \<le> s + cs"
      using window_end_bound[OF less.prems(2,3), of t] by auto
    have "int (length ?c) \<le> int (length (py_slice t s ?e))"
      using length_strip[of "py_slice t s ?e"] by simp
    also have "\<dots> \<le> ?e - s" by (rule length_py_slice[OF less.prems(2) we(1)])
    also have "\<dots> \<le> cs" using we(2) by simp
    finally have "int (length ?c) \<le> cs" .
    hence acc': "\<forall>c\<in>set ?acc. int (length c) \<le> cs" using less.prems(4) by auto
    from gt less.prems(2) have "0 \<le> next_start s ?e ov" by simp
    from less.hyps[OF m step this less.prems(3) acc'] show ?thesis .
  next
    case False
    with less.prems(1) have "r = acc" by (subst (asm) chunk_loop.simps) simp
    with less.prems(4) show ?thesis by simp
  qed
qed

text \<open>
  C10.  For every text, every overlap and every chunk size greater than zero, the
  chunker returns a list of chunks, and every chunk of it has at most \<open>chunk_size\<close>
  characters.
\<close>

theorem chunk_length_bounded:
  "0 < chunk_size \<Longrightarrow>
   (\<exists>chunks. chunk_text full_text chunk_size overlap = Some chunks
      \<and> (\<forall>c\<in>set chunks. int (length c) \<le> chunk_size))"
proof -
  assume pos: "0 < chunk_size"
  have "\<exists>chunks. chunk_text full_text chunk_size overlap = Some chunks"
    using chunk_loop_returns[of full_text chunk_size overlap 0 "[]"]
    by (simp add: chunk_text_def)
  then obtain chunks where c: "chunk_text full_text chunk_size overlap = Some chunks" ..
  have "\<forall>c\<in>set chunks. int (length c) \<le> chunk_size"
  proof (cases "strip full_text = []")
    case True
    with c show ?thesis by (simp add: chunk_text_def)
  next
    case False
    with c have "chunk_loop full_text chunk_size overlap 0 [] = Some chunks"
      by (simp add: chunk_text_def)
    from chunk_loop_bounded[OF this _ pos] show ?thesis by simp
  qed
  with c show ?thesis by simp
qed

theorem chunk_length_bounded_witness:
  "(0::int) < 10
   \<and> chunk_text ''Hello world. How are you? Fine! ok'' 10 3 =
       Some [''Hello worl'', ''orld.'', ''d.'', ''.'', ''How are y'', ''e you?'',
             ''u?'', ''? Fine! ok'', ''ok'']
   \<and> list_all (\<lambda>c. int (length c) \<le> 10)
         [''Hello worl'', ''orld.'', ''d.'', ''.'', ''How are y'', ''e you?'',
          ''u?'', ''? Fine! ok'', ''ok'']"
proof -
  have e: "chunk_text ''Hello world. How are you? Fine! ok'' 10 3 =
       Some [''Hello worl'', ''orld.'', ''d.'', ''.'', ''How are y'', ''e you?'',
             ''u?'', ''? Fine! ok'', ''ok'']"
    by code_simp
  show ?thesis
    using chunk_length_bounded[of 10 "''Hello world. How are you? Fine! ok''" 3] e
    by simp
qed

lemma snap_find:
  "snap t start e bs =
     (case find (\<lambda>b. occurrences (py_slice t start e) b \<noteq> []) bs of
        None \<Rightarrow> e
      | Some b \<Rightarrow> start + int (last (occurrences (py_slice t start e) b)) + int (length b))"
  by (induction bs) (simp_all add: rfind_occurrences Let_def)

lemma window_end_inside:
  assumes "0 \<le> start" and "0 < cs" and "start + cs < int (length t)"
  shows "window_end t cs start = spec_window_end t cs start"
proof -
  have eq: "py_slice t start (start + cs) = take (nat cs) (drop (nat start) t)"
    using py_slice_inside[of start "start + cs" t] assms by simp
  show ?thesis
    unfolding window_end_def spec_window_end_def snap_find Let_def eq
    using assms(3) by simp
qed

text \<open>
  C7, as the code has it.  The claim as stated fails on a window that reaches the end
  of the text, which the code leaves whole even when it holds a boundary, and on a
  window whose end minus the overlap is not beyond its start.  Amended: for a window
  of \<open>chunk_size\<close> characters that ends strictly before the end of the text, the end of
  the chunk is the one the specification describes (the boundary kinds \<open>". "\<close>,
  \<open>"? "\<close>, \<open>"! "\<close>, \<open>"\n"\<close> in that order of priority, the first kind that occurs in the
  window decides, the chunk ends just after its last occurrence, and a window without
  boundary is kept whole); a window that reaches the end of the text is never
  shortened; the next window starts at \<open>end - overlap\<close> when that is greater than the
  current start, and at \<open>start + 1\<close> otherwise.
\<close>

theorem chunker_window_snap:
  "(0 \<le> start \<and> 0 < chunk_size \<and> start + chunk_size < int (length full_text) \<longrightarrow>
      window_end full_text chunk_size start = spec_window_end full_text chunk_size start)
   \<and> (int (length full_text) \<le> start + chunk_size \<longrightarrow>
      window_end full_text chunk_size start = start + chunk_size)
   \<and> (start < e - overlap \<longrightarrow> next_start start e overlap = e - overlap)
   \<and> (e - overlap \<le> start \<longrightarrow> next_start start e overlap = start + 1)"
  using window_end_inside[of start chunk_size full_text]
  by (simp add: window_end_def next_start_def Let_def)

theorem chunker_window_snap_witness:
  "window_end ''Hello world. How are you? Fine! ok'' 10 7 = 13
   \<and> spec_window_end ''Hello world. How are you? Fine! ok'' 10 7 = 13
   \<and> window_end ''Hello world. How are you? Fine! ok'' 10 24 = 34
   \<and> next_start 7 13 3 = 10
   \<and> next_start 10 13 3 = 11"
proof -
  have "spec_window_end ''Hello world. How are you? Fine! ok'' 10 7 = 13"
    by (simp add: spec_window_end_def boundaries_def occurrences_def occurs_at_def)
  thus ?thesis
    using chunker_window_snap[of 7 10 "''Hello world. How are you? Fine! ok''" 13 3]
      chunker_window_snap[of 24 10 "''Hello world. How are you? Fine! ok''" 13 3]
      chunker_window_snap[of 10 10 "''Hello world. How are you? Fine! ok''" 13 3]
    by simp
qed

text \<open>
  The text \<open>"a. b"\<close> with chunk size 4 is one window of 4 characters that holds the
  boundary \<open>". "\<close> at position 1: as the claim is stated the window would end at 3, the
  code keeps it whole; and with overlap 4 the next window starts at 1, not at
  \<open>end - overlap = 0\<close>.
\<close>

theorem chunker_window_snap_counterexample:
  "window_end ''a. b'' 4 0 \<noteq> spec_window_end ''a. b'' 4 0
   \<and> window_end ''a. b'' 4 0 = 4
   \<and> spec_window_end ''a. b'' 4 0 = 3
   \<and> next_start 0 (window_end ''a. b'' 4 0) 4 \<noteq> window_end ''a. b'' 4 0 - 4
   \<and> chunk_text ''a. b'' 4 4 = Some [''a. b'', ''. b'', ''b'', ''b'']"
proof -
  have "chunk_text ''a. b'' 4 4 = Some [''a. b'', ''. b'', ''b'', ''b'']"
    by code_simp
  moreover have "spec_window_end ''a. b'' 4 0 = 3"
    by (simp add: spec_window_end_def boundaries_def occurrences_def occurs_at_def)
  ultimately show ?thesis
    by (simp add: window_end_def next_start_def)
qed

section \<open>Properties of the deduplication\<close>

lemma strip_Nil: "strip [] = []"
  by (simp add: strip_def)

lemma dedup_loop_step:
  "is_entity e \<Longrightarrow>
   dedup_loop (e # es) seen =
     dedup_loop es (case entity_key e of None \<Rightarrow> seen | Some k \<Rightarrow> AList.update k e seen)"
proof (cases e)
  case (JObj kvs)
  assume "is_entity e"
  with JObj show ?thesis
    by (cases "map_of kvs ''name''") (auto simp: strip_Nil split: json.splits)
qed simp_all

lemma with_key_Cons:
  "with_key k (e # es) = (if entity_key e = Some k then e # with_key k es else with_key k es)"
  by (simp add: with_key_def)

lemma dedup_loop_map:
  "list_all is_entity es \<Longrightarrow>
   \<exists>seen'. dedup_loop es seen = Inr seen'
     \<and> (\<forall>k. map_of seen' k =
            (if with_key k es = [] then map_of seen k else Some (last (with_key k es))))
     \<and> (distinct (map fst seen) \<longrightarrow> distinct (map fst seen'))"
proof (induction es arbitrary: seen)
  case Nil
  then show ?case by (simp add: with_key_def)
next
  case (Cons e es)
  hence ent: "is_entity e" and rest: "list_all is_entity es" by simp_all
  let ?seen = "case entity_key e of None \<Rightarrow> seen | Some k \<Rightarrow> AList.update k e seen"
  from Cons.IH[OF rest, of ?seen] obtain seen' where
    r: "dedup_loop es ?seen = Inr seen'" and
    m: "\<And>k. map_of seen' k =
            (if with_key k es = [] then map_of ?seen k else Some (last (with_key k es)))" and
    d: "distinct (map fst ?seen) \<longrightarrow> distinct (map fst seen')"
    by blast
  have 1: "dedup_loop (e # es) seen = Inr seen'"
    using dedup_loop_step[OF ent] r by simp
  have 2: "map_of seen' k =
            (if with_key k (e # es) = [] then map_of seen k
             else Some (last (with_key k (e # es))))" for k
    using m[of k] by (cases "entity_key e") (auto simp: with_key_Cons update_conv')
  have 3: "distinct (map fst seen) \<longrightarrow> distinct (map fst seen')"
    using d by (cases "entity_key e") (auto simp: distinct_update)
  from 1 2 3 show ?case by blast
qed


lemma with_key_member:
  "with_key k es \<noteq> [] \<Longrightarrow>
   last (with_key k es) \<in> set es \<and> entity_key (last (with_key k es)) = Some k"
proof -
  assume "with_key k es \<noteq> []"
  hence "last (with_key k es) \<in> set (with_key k es)" by (rule last_in_set)
  thus ?thesis by (simp add: with_key_def)
qed

lemma with_key_nonempty:
  "with_key k es \<noteq> [] \<longleftrightarrow> (\<exists>e\<in>set es. entity_key e = Some k)"
  by (auto simp: with_key_def filter_empty_conv)

lemma dedup_loop_keys:
  "list_all is_entity es \<Longrightarrow> dedup_loop es seen = Inr seen' \<Longrightarrow>
   map fst seen' =
     foldl (\<lambda>ks k. if k \<in> set ks then ks else ks @ [k]) (map fst seen)
       (List.map_filter entity_key es)"
proof (induction es arbitrary: seen)
  case Nil
  then show ?case by (simp add: List.map_filter_simps)
next
  case (Cons e es)
  hence ent: "is_entity e" and rest: "list_all is_entity es" by simp_all
  let ?seen = "case entity_key e of None \<Rightarrow> seen | Some k \<Rightarrow> AList.update k e seen"
  have "dedup_loop es ?seen = Inr seen'"
    using Cons.prems(2) dedup_loop_step[OF ent] by simp
  from Cons.IH[OF rest this] show ?case
    by (cases "entity_key e") (auto simp: List.map_filter_simps update_keys)
qed

lemma first_occurrence_order:
  "foldl (\<lambda>ks k. if k \<in> set ks then ks else ks @ [k]) [] xs = rev (remdups (rev xs))"
proof (induction xs rule: rev_induct)
  case Nil
  show ?case by simp
next
  case (snoc x xs)
  have "set (rev (remdups (rev xs))) = set xs" by simp
  with snoc show ?case by simp
qed

text \<open>
  C3, as the code has it.  The claim as stated fails on a list that holds an item
  whose name is not a string (\<open>null\<close>, say) or that is not a dictionary: line 166 then
  raises \<open>AttributeError\<close>, and nothing is discarded or kept.  Amended: for every list
  of extracted entities that are dictionaries whose name, when present, is a string,
  the deduplication returns a dictionary with exactly one entry for every
  normalisation key (the name trimmed, then lower-cased) that an entity of the list
  has, and no other entry; an entity whose name is missing or empty after trimming
  has no key and does not survive; the entry of a key is the last entity of the list
  with that key, the whole entity as it was extracted; and the surviving entities
  come in the order in which their keys first occur.  The example of the
  specification, \<open>"OpenAI"\<close> followed by \<open>" openai "\<close>, leaves the one key \<open>"openai"\<close>
  with the second record.
\<close>

theorem dedup_last_write_wins:
  "list_all is_entity all_entities \<Longrightarrow>
   \<exists>seen. deduplicate all_entities = Inr seen
     \<and> distinct (map fst seen)
     \<and> (\<forall>k. k \<in> fst ` set seen \<longleftrightarrow> (\<exists>e\<in>set all_entities. entity_key e = Some k))
     \<and> (\<forall>k e. (k, e) \<in> set seen \<longleftrightarrow>
           with_key k all_entities \<noteq> [] \<and> e = last (with_key k all_entities))
     \<and> (\<forall>e\<in>set (unique_entities seen). e \<in> set all_entities \<and> entity_key e \<noteq> None)
     \<and> map fst seen = rev (remdups (rev (List.map_filter entity_key all_entities)))
     \<and> unique_entities seen =
         map (\<lambda>k. last (with_key k all_entities))
           (rev (remdups (rev (List.map_filter entity_key all_entities))))
     \<and> length (unique_entities seen) = card {k. \<exists>e\<in>set all_entities. entity_key e = Some k}"
proof -
  assume a: "list_all is_entity all_entities"
  from dedup_loop_map[OF a, of "[]"] obtain seen where
    r: "deduplicate all_entities = Inr seen" and
    m: "\<And>k. map_of seen k =
           (if with_key k all_entities = [] then None
            else Some (last (with_key k all_entities)))" and
    d: "distinct (map fst seen)"
    by (auto simp: deduplicate_def)
  have mem: "(k, e) \<in> set seen \<longleftrightarrow>
           with_key k all_entities \<noteq> [] \<and> e = last (with_key k all_entities)" for k e
    using map_of_eq_Some_iff[OF d, of k e] m[of k] by (auto split: if_splits)
  have keys: "k \<in> fst ` set seen \<longleftrightarrow> (\<exists>e\<in>set all_entities. entity_key e = Some k)" for k
  proof -
    have "k \<in> fst ` set seen \<longleftrightarrow> map_of seen k \<noteq> None"
      by (simp add: map_of_eq_None_iff)
    also have "\<dots> \<longleftrightarrow> with_key k all_entities \<noteq> []" using m[of k] by simp
    finally show ?thesis by (simp add: with_key_nonempty)
  qed
  have surv: "e \<in> set all_entities \<and> entity_key e \<noteq> None"
    if "e \<in> set (unique_entities seen)" for e
  proof -
    from that obtain k where "(k, e) \<in> set seen" by (auto simp: unique_entities_def)
    with mem have "with_key k all_entities \<noteq> []" "e = last (with_key k all_entities)"
      by auto
    with with_key_member[of k all_entities] show ?thesis by simp
  qed
  have order: "map fst seen = rev (remdups (rev (List.map_filter entity_key all_entities)))"
    using dedup_loop_keys[OF a, of "[]" seen] r
    by (simp add: deduplicate_def first_occurrence_order)
  have vals: "unique_entities seen =
         map (\<lambda>k. last (with_key k all_entities))
           (rev (remdups (rev (List.map_filter entity_key all_entities))))"
  proof -
    have "snd p = last (with_key (fst p) all_entities)" if "p \<in> set seen" for p
      using that mem[of "fst p" "snd p"] by simp
    hence "map snd seen = map (\<lambda>p. last (with_key (fst p) all_entities)) seen"
      by simp
    also have "\<dots> = map (\<lambda>k. last (with_key k all_entities)) (map fst seen)"
      by simp
    finally show ?thesis by (simp add: unique_entities_def order)
  qed
  have "length (unique_entities seen) = length (map fst seen)"
    by (simp add: unique_entities_def)
  also have "\<dots> = card (set (map fst seen))" using distinct_card[OF d] by simp
  also have "set (map fst seen) = {k. \<exists>e\<in>set all_entities. entity_key e = Some k}"
    using keys by auto
  finally have len:
    "length (unique_entities seen) = card {k. \<exists>e\<in>set all_entities. entity_key e = Some k}" .
  from r d mem keys surv order vals len show ?thesis by blast
qed

theorem dedup_last_write_wins_witness:
  "list_all is_entity
     [JObj [(''name'', JStr ''OpenAI''), (''type'', JStr ''ORGANIZATION''),
            (''description'', JStr ''first'')],
      JObj [(''name'', JStr '' openai ''), (''type'', JStr ''COMPANY''),
            (''description'', JStr ''second'')]]
   \<and> deduplicate
     [JObj [(''name'', JStr ''OpenAI''), (''type'', JStr ''ORGANIZATION''),
            (''description'', JStr ''first'')],
      JObj [(''name'', JStr '' openai ''), (''type'', JStr ''COMPANY''),
            (''description'', JStr ''second'')]]
     = Inr [(''openai'',
             JObj [(''name'', JStr '' openai ''), (''type'', JStr ''COMPANY''),
                   (''description'', JStr ''second'')])]"
proof -
  have "deduplicate
     [JObj [(''name'', JStr ''OpenAI''), (''type'', JStr ''ORGANIZATION''),
            (''description'', JStr ''first'')],
      JObj [(''name'', JStr '' openai ''), (''type'', JStr ''COMPANY''),
            (''description'', JStr ''second'')]]
     = Inr [(''openai'',
             JObj [(''name'', JStr '' openai ''), (''type'', JStr ''COMPANY''),
                   (''description'', JStr ''second'')])]"
    by code_simp
  thus ?thesis
    using dedup_last_write_wins
      [of "[JObj [(''name'', JStr ''OpenAI''), (''type'', JStr ''ORGANIZATION''),
              (''description'', JStr ''first'')],
        JObj [(''name'', JStr '' openai ''), (''type'', JStr ''COMPANY''),
              (''description'', JStr ''second'')]]"]
    by simp
qed

text \<open>
  A record whose name is \<open>null\<close>, and an item that is a bare string, after a proper
  entity: the deduplication raises instead of discarding the item.
\<close>

theorem dedup_last_write_wins_counterexample:
  "deduplicate [JObj [(''name'', JStr ''OpenAI'')], JObj [(''name'', JNull)]]
     = Inl AttributeError
   \<and> deduplicate [JObj [(''name'', JStr ''OpenAI'')], JStr ''openai'']
     = Inl AttributeError"
  by (simp add: deduplicate_def strip_def isspace_def)

section \<open>Properties of the extraction\<close>

lemma and_then_simps [simp]:
  "and_then (Inl e) f = Inl e" "and_then (Inr x) f = f x"
  by (simp_all add: and_then_def)

lemma extract_except_empty: "extract_except e = Inr empty_result"
  by (cases e) simp_all

lemma extract_with_timeout_cases:
  "extract_with_timeout loads response =
     (case extract_try loads response of Inl e \<Rightarrow> Inr empty_result | Inr parsed \<Rightarrow> Inr parsed)"
  by (simp add: extract_with_timeout_def extract_except_empty split: sum.splits)

lemma extract_returns: "\<exists>r. extract_with_timeout loads response = Inr r"
  by (simp add: extract_with_timeout_cases split: sum.splits)

lemma extract_try_dict:
  "extract_try loads response = Inr parsed \<Longrightarrow>
   \<exists>kvs. parsed = JObj kvs
     \<and> (\<exists>n. py_len (case map_of kvs ''entities'' of None \<Rightarrow> JArr [] | Some v \<Rightarrow> v) = Inr n)
     \<and> (\<exists>n. py_len (case map_of kvs ''relationships'' of None \<Rightarrow> JArr [] | Some v \<Rightarrow> v) = Inr n)"
  unfolding extract_try_def
  by (cases response; cases "parse_llm_json loads (projr response)"; cases parsed)
     (auto simp: and_then_def split: sum.splits)

lemma py_len_iter: "py_len v = Inr n \<Longrightarrow> \<exists>xs. py_iter v = Inr xs"
  by (cases v) simp_all

lemma extract_result_items:
  "extract_with_timeout loads response = Inr parsed \<Longrightarrow>
   (\<exists>es. chunk_items ''entities'' parsed = Inr es) \<and>
   (\<exists>rs. chunk_items ''relationships'' parsed = Inr rs)"
proof -
  assume a: "extract_with_timeout loads response = Inr parsed"
  show ?thesis
  proof (cases "extract_try loads response")
    case (Inl e)
    with a have "parsed = empty_result" by (simp add: extract_with_timeout_cases)
    thus ?thesis by (simp add: chunk_items_def empty_result_def)
  next
    case (Inr p)
    with a have "extract_try loads response = Inr parsed"
      by (simp add: extract_with_timeout_cases)
    from extract_try_dict[OF this] show ?thesis
      by (auto simp: chunk_items_def dest: py_len_iter)
  qed
qed


lemma strip_fences_no_tick:
  "CHR ''`'' \<notin> set xs \<Longrightarrow> strip_fences (xs @ ys) = xs @ strip_fences ys"
  by (induction xs) auto

lemma strip_fences_fenced:
  assumes "body \<noteq> []" and "\<not> isspace (hd body)" and "CHR ''`'' \<notin> set body"
  shows "strip_fences (''```json'' @ [CHR 0x0A] @ body @ [CHR 0x0A] @ ''```'')
         = body @ [CHR 0x0A]"
proof -
  obtain b bs where b: "body = b # bs" using assms(1) by (cases body) auto
  have nl: "isspace (CHR 0x0A)" by (simp add: isspace_def)
  have "strip_fences (''```json'' @ [CHR 0x0A] @ body @ [CHR 0x0A] @ ''```'')
        = strip_fences (body @ [CHR 0x0A] @ ''```'')"
    using assms(2) nl by (simp add: b)
  also have "\<dots> = body @ strip_fences ([CHR 0x0A] @ ''```'')"
    by (rule strip_fences_no_tick[OF assms(3)])
  also have "strip_fences ([CHR 0x0A] @ ''```'') = [CHR 0x0A]" by simp
  finally show ?thesis .
qed

lemma strip_trimmed:
  assumes "body \<noteq> []" and "\<not> isspace (hd body)" and "\<not> isspace (last body)"
  shows "strip body = body"
proof -
  have 1: "dropWhile isspace body = body"
    using assms(1,2) by (simp add: dropWhile_eq_self_iff)
  have 2: "dropWhile isspace (rev body) = rev body"
    using assms(1,3) by (simp add: dropWhile_eq_self_iff hd_rev)
  show ?thesis by (simp add: strip_def 1 2)
qed

lemma strip_trailing_newline:
  assumes "body \<noteq> []" and "\<not> isspace (hd body)" and "\<not> isspace (last body)"
  shows "strip (body @ [CHR 0x0A]) = body"
proof -
  have nl: "isspace (CHR 0x0A)" by (simp add: isspace_def)
  have 1: "dropWhile isspace (body @ [CHR 0x0A]) = body @ [CHR 0x0A]"
    using assms(1,2) by (simp add: dropWhile_eq_self_iff)
  have 2: "dropWhile isspace (rev body) = rev body"
    using assms(1,3) by (simp add: dropWhile_eq_self_iff hd_rev)
  show ?thesis by (simp add: strip_def 1 2 nl)
qed

lemma rstrip_char_no_tick:
  assumes "c \<notin> set body"
  shows "rstrip_char c body = body"
proof -
  have "body = [] \<or> last body \<noteq> c" using assms last_in_set by fastforce
  hence "dropWhile (\<lambda>x. x = c) (rev body) = rev body"
    by (auto simp: dropWhile_eq_self_iff hd_rev)
  thus ?thesis by (simp add: rstrip_char_def)
qed

lemma clean_fenced:
  assumes "body \<noteq> []" and "\<not> isspace (hd body)" and "\<not> isspace (last body)"
    and "CHR ''`'' \<notin> set body"
  shows "clean_llm_text (''```json'' @ [CHR 0x0A] @ body @ [CHR 0x0A] @ ''```'') = body"
    and "clean_llm_text body = body"
proof -
  show "clean_llm_text (''```json'' @ [CHR 0x0A] @ body @ [CHR 0x0A] @ ''```'') = body"
    unfolding clean_llm_text_def strip_fences_fenced[OF assms(1,2,4)]
      strip_trailing_newline[OF assms(1,2,3)]
    by (rule rstrip_char_no_tick[OF assms(4)])
  have "strip_fences body = body"
    using strip_fences_no_tick[OF assms(4), of "[]"] by simp
  thus "clean_llm_text body = body"
    unfolding clean_llm_text_def
    by (simp add: strip_trimmed[OF assms(1,2,3)] rstrip_char_no_tick[OF assms(4)])
qed

lemma extract_decode_error:
  "loads (clean_llm_text content) = Inl e \<Longrightarrow>
   extract_with_timeout loads (Inr content) = Inr empty_result"
  by (cases e)
     (simp_all add: extract_with_timeout_cases extract_try_def parse_llm_json_def
        empty_result_def)

text \<open>
  C5.  \<open>_extract_with_timeout\<close> never raises: whatever the model call gives and
  whatever the parser does, it returns a result.  When the call times out or raises any
  other exception the result is the empty structure; when the cleaned text does not
  parse (whichever exception the parser raises) the result is the empty structure; and
  so it is for every other exception raised inside the \<open>try\<close>.  Markdown fences are
  removed before the text is parsed: an answer \<open>body\<close> wrapped as
  \<^verbatim>\<open>```json\nbody\n```\<close> is parsed as \<open>body\<close> itself and gives the result that the
  unwrapped answer gives.
\<close>

theorem extraction_never_raises:
  "(\<exists>r. extract_with_timeout loads response = Inr r)
   \<and> extract_with_timeout loads (Inl e) = Inr empty_result
   \<and> (loads (clean_llm_text content) = Inl e \<longrightarrow>
        extract_with_timeout loads (Inr content) = Inr empty_result)
   \<and> (extract_try loads response = Inl e \<longrightarrow>
        extract_with_timeout loads response = Inr empty_result)
   \<and> (body \<noteq> [] \<and> \<not> isspace (hd body) \<and> \<not> isspace (last body) \<and> CHR ''`'' \<notin> set body \<longrightarrow>
        clean_llm_text (''```json'' @ [CHR 0x0A] @ body @ [CHR 0x0A] @ ''```'') = body
        \<and> extract_with_timeout loads (Inr (''```json'' @ [CHR 0x0A] @ body @ [CHR 0x0A] @ ''```''))
            = extract_with_timeout loads (Inr body))"
proof -
  have 1: "\<exists>r. extract_with_timeout loads response = Inr r" by (rule extract_returns)
  have 2: "extract_with_timeout loads (Inl e) = Inr empty_result"
    by (simp add: extract_with_timeout_cases extract_try_def)
  have 3: "loads (clean_llm_text content) = Inl e \<longrightarrow>
        extract_with_timeout loads (Inr content) = Inr empty_result"
    using extract_decode_error by blast
  have 4: "extract_try loads response = Inl e \<longrightarrow>
        extract_with_timeout loads response = Inr empty_result"
    by (simp add: extract_with_timeout_cases)
  have 5: "clean_llm_text (''```json'' @ [CHR 0x0A] @ body @ [CHR 0x0A] @ ''```'') = body
        \<and> extract_with_timeout loads (Inr (''```json'' @ [CHR 0x0A] @ body @ [CHR 0x0A] @ ''```''))
            = extract_with_timeout loads (Inr body)"
    if a: "body \<noteq> []" "\<not> isspace (hd body)" "\<not> isspace (last body)" "CHR ''`'' \<notin> set body"
  proof -
    note c = clean_fenced[OF a]
    show ?thesis
      using c by (simp add: extract_with_timeout_def extract_try_def parse_llm_json_def)
  qed
  from 1 2 3 4 5 show ?thesis by blast
qed


theorem extraction_never_raises_witness:
  "extract_with_timeout
     (\<lambda>s. if s = ''{}'' then Inr (JObj []) else if s = ''[1]'' then Inr (JArr [JNum 1])
          else Inl JSONDecodeError) (Inl TimeoutError) = Inr empty_result
   \<and> extract_with_timeout
     (\<lambda>s. if s = ''{}'' then Inr (JObj []) else if s = ''[1]'' then Inr (JArr [JNum 1])
          else Inl JSONDecodeError) (Inr ''not json'') = Inr empty_result
   \<and> extract_try
     (\<lambda>s. if s = ''{}'' then Inr (JObj []) else if s = ''[1]'' then Inr (JArr [JNum 1])
          else Inl JSONDecodeError) (Inr ''[1]'') = Inl AttributeError
   \<and> extract_with_timeout
     (\<lambda>s. if s = ''{}'' then Inr (JObj []) else if s = ''[1]'' then Inr (JArr [JNum 1])
          else Inl JSONDecodeError) (Inr ''[1]'') = Inr empty_result
   \<and> clean_llm_text (''```json'' @ [CHR 0x0A] @ ''{}'' @ [CHR 0x0A] @ ''```'') = ''{}''
   \<and> extract_with_timeout
     (\<lambda>s. if s = ''{}'' then Inr (JObj []) else if s = ''[1]'' then Inr (JArr [JNum 1])
          else Inl JSONDecodeError)
     (Inr (''```json'' @ [CHR 0x0A] @ ''{}'' @ [CHR 0x0A] @ ''```'')) = Inr (JObj [])"
  (is "extract_with_timeout ?L _ = _ \<and> _")
proof -
  have c1: "clean_llm_text ''not json'' = ''not json''"
    by (simp add: clean_llm_text_def strip_def rstrip_char_def isspace_def)
  have c2: "clean_llm_text ''[1]'' = ''[1]''"
    by (simp add: clean_llm_text_def strip_def rstrip_char_def isspace_def)
  have c3: "clean_llm_text ''{}'' = ''{}''"
    by (simp add: clean_llm_text_def strip_def rstrip_char_def isspace_def)
  have t: "extract_try ?L (Inr ''[1]'') = Inl AttributeError"
    by (simp add: extract_try_def parse_llm_json_def c2 and_then_def)
  have b: "extract_with_timeout ?L (Inr ''{}'') = Inr (JObj [])"
    by (simp add: extract_with_timeout_def extract_try_def parse_llm_json_def c3 and_then_def)
  have sp: "\<not> isspace (CHR ''{'')" "\<not> isspace (CHR ''}'')" by (simp_all add: isspace_def)
  show ?thesis
    using extraction_never_raises[of ?L "Inr ''[1]''" TimeoutError "''not json''" "''{}''"]
      extraction_never_raises[of ?L "Inr ''[1]''" JSONDecodeError "''not json''" "''{}''"]
      extraction_never_raises[of ?L "Inr ''[1]''" AttributeError "''not json''" "''{}''"]
      t b sp
    by (simp add: c1)
qed

lemma gather_Inr: "gather (map Inr xs) = Inr xs"
  by (induction xs) simp_all

lemma extract_all_results:
  "\<exists>results. map (extract_with_timeout loads) responses = map Inr results"
proof (induction responses)
  case Nil
  show ?case by simp
next
  case (Cons r rs)
  then obtain results where "map (extract_with_timeout loads) rs = map Inr results" ..
  moreover obtain p where "extract_with_timeout loads r = Inr p"
    using extract_returns by blast
  ultimately have "map (extract_with_timeout loads) (r # rs) = map Inr (p # results)"
    by simp
  thus ?case ..
qed

lemma results_items:
  "map (extract_with_timeout loads) responses = map Inr results \<Longrightarrow>
   key = ''entities'' \<or> key = ''relationships'' \<Longrightarrow>
   map (chunk_items key) results = map Inr (map (contribution key loads) responses)"
proof (induction responses arbitrary: results)
  case Nil
  then show ?case by simp
next
  case (Cons r rs)
  then obtain p ps where res: "results = p # ps" and
    p: "extract_with_timeout loads r = Inr p" and
    ps: "map (extract_with_timeout loads) rs = map Inr ps"
    by (cases results) auto
  from extract_result_items[OF p] Cons.prems(2)
  obtain xs where xs: "chunk_items key p = Inr xs" by blast
  hence "contribution key loads r = xs" using p by (simp add: contribution_def)
  with Cons.IH[OF ps Cons.prems(2)] xs res show ?case by simp
qed

lemma aggregate_concat:
  "map (chunk_items ''entities'') results = map Inr ess \<Longrightarrow>
   map (chunk_items ''relationships'') results = map Inr rss \<Longrightarrow>
   aggregate results ae ar = Inr (ae @ concat ess, ar @ concat rss)"
proof (induction results arbitrary: ess rss ae ar)
  case Nil
  then show ?case by simp
next
  case (Cons p ps)
  then obtain es ess' rs rss' where
    "ess = es # ess'" "rss = rs # rss'"
    "chunk_items ''entities'' p = Inr es" "chunk_items ''relationships'' p = Inr rs"
    "map (chunk_items ''entities'') ps = map Inr ess'"
    "map (chunk_items ''relationships'') ps = map Inr rss'"
    by (cases ess; cases rss) auto
  with Cons.IH[of ess' rss' "ae @ es" "ar @ rs"] show ?case by simp
qed

lemma extract_all_concat:
  "extract_all loads responses =
     Inr (concat (map (contribution ''entities'' loads) responses),
          concat (map (contribution ''relationships'' loads) responses))"
proof -
  obtain results where r: "map (extract_with_timeout loads) responses = map Inr results"
    using extract_all_results by blast
  have "aggregate results [] [] =
     Inr ([] @ concat (map (contribution ''entities'' loads) responses),
          [] @ concat (map (contribution ''relationships'' loads) responses))"
    by (rule aggregate_concat) (simp_all add: results_items[OF r])
  thus ?thesis by (simp add: extract_all_def r gather_Inr)
qed

lemma contribution_failed: "contribution key loads (Inl e) = []"
  by (cases "key = ''entities''"; cases "key = ''relationships''")
     (simp_all add: contribution_def extract_with_timeout_cases extract_try_def
        chunk_items_def empty_result_def)

lemma chunk_items_spec:
  assumes "extract_with_timeout loads response = Inr parsed"
    and "key = ''entities'' \<or> key = ''relationships''"
  shows "chunk_items key parsed = Inr (spec_items key parsed)"
proof (cases "extract_try loads response")
  case (Inl e)
  with assms(1) have "parsed = empty_result" by (simp add: extract_with_timeout_cases)
  thus ?thesis using assms(2) by (auto simp: chunk_items_def empty_result_def)
next
  case (Inr p)
  with assms(1) have "extract_try loads response = Inr parsed"
    by (simp add: extract_with_timeout_cases)
  from extract_try_dict[OF this] obtain kvs n m where
    p: "parsed = JObj kvs"
    and e: "py_len (case map_of kvs ''entities'' of None \<Rightarrow> JArr [] | Some v \<Rightarrow> v) = Inr n"
    and r: "py_len (case map_of kvs ''relationships'' of None \<Rightarrow> JArr [] | Some v \<Rightarrow> v) = Inr m"
    by blast
  have sized: "py_len v = Inr k \<Longrightarrow>
      py_iter v = Inr (case v of JArr xs \<Rightarrow> xs | JStr s \<Rightarrow> map (\<lambda>c. JStr [c]) s
                         | JObj m \<Rightarrow> map (\<lambda>kv. JStr (fst kv)) m | _ \<Rightarrow> [])" for v k
    by (cases v) simp_all
  from assms(2) show ?thesis
  proof
    assume k: "key = ''entities''"
    show ?thesis using sized[OF e]
      unfolding k p chunk_items_def by (auto split: option.splits json.splits)
  next
    assume k: "key = ''relationships''"
    show ?thesis using sized[OF r]
      unfolding k p chunk_items_def by (auto split: option.splits json.splits)
  qed
qed

lemma results_spec_items:
  "map (extract_with_timeout loads) responses = map Inr results \<Longrightarrow>
   key = ''entities'' \<or> key = ''relationships'' \<Longrightarrow>
   map (contribution key loads) responses = map (spec_items key) results"
proof (induction responses arbitrary: results)
  case Nil
  then show ?case by simp
next
  case (Cons r rs)
  then obtain p ps where res: "results = p # ps" and
    p: "extract_with_timeout loads r = Inr p" and
    ps: "map (extract_with_timeout loads) rs = map Inr ps"
    by (cases results) auto
  have "contribution key loads r = spec_items key p"
    using chunk_items_spec[OF p Cons.prems(2)] p by (simp add: contribution_def)
  with Cons.IH[OF ps Cons.prems(2)] res show ?case by simp
qed

lemma extract_success:
  assumes "loads (clean_llm_text content) = Inr (JObj kvs)"
    and "map_of kvs ''entities'' = Some (JArr es)"
    and "map_of kvs ''relationships'' = Some (JArr rs)"
  shows "extract_with_timeout loads (Inr content) = Inr (JObj kvs)"
    and "contribution ''entities'' loads (Inr content) = es"
    and "contribution ''relationships'' loads (Inr content) = rs"
proof -
  show 1: "extract_with_timeout loads (Inr content) = Inr (JObj kvs)"
    using assms
    by (simp add: extract_with_timeout_def extract_try_def parse_llm_json_def)
  show "contribution ''entities'' loads (Inr content) = es"
    by (simp add: contribution_def 1 chunk_items_def assms(2))
  show "contribution ''relationships'' loads (Inr content) = rs"
    by (simp add: contribution_def 1 chunk_items_def assms(3))
qed

text \<open>
  C4.  Every chunk's extraction resolves with a result, one result for each chunk in
  the order of the chunks, and none raises; the aggregation runs on that complete
  list, and the aggregated lists of entities and of relationships are the
  concatenations, in the order of the chunks, of the lists that the per-chunk results
  hold.  For a chunk between any chunks before and after it: when its call fails or
  times out the aggregate is that of the chunks before followed by that of the chunks
  after, unchanged; when its answer parses to an object with the lists \<open>es\<close> and
  \<open>rs\<close>, exactly \<open>es\<close> and \<open>rs\<close> stand between them.
\<close>

theorem extraction_aggregates_every_chunk:
  "(\<exists>results.
        map (extract_with_timeout loads) responses = map Inr results
      \<and> length results = length responses
      \<and> extract_all loads responses =
          Inr (concat (map (spec_items ''entities'') results),
               concat (map (spec_items ''relationships'') results)))
   \<and> (\<exists>e1 r1 e2 r2.
        extract_all loads before = Inr (e1, r1)
      \<and> extract_all loads after = Inr (e2, r2)
      \<and> extract_all loads (before @ Inl e # after) = Inr (e1 @ e2, r1 @ r2)
      \<and> (loads (clean_llm_text content) = Inr (JObj kvs)
           \<and> map_of kvs ''entities'' = Some (JArr es)
           \<and> map_of kvs ''relationships'' = Some (JArr rs) \<longrightarrow>
          extract_with_timeout loads (Inr content) = Inr (JObj kvs)
          \<and> extract_all loads (before @ Inr content # after)
              = Inr (e1 @ es @ e2, r1 @ rs @ r2)))"
proof -
  obtain results where r: "map (extract_with_timeout loads) responses = map Inr results"
    using extract_all_results by blast
  hence "length results = length responses"
    using length_map[of Inr results] length_map[of "extract_with_timeout loads" responses]
    by simp
  moreover have "extract_all loads responses =
          Inr (concat (map (spec_items ''entities'') results),
               concat (map (spec_items ''relationships'') results))"
    using extract_all_concat[of loads responses]
    by (simp add: results_spec_items[OF r])
  ultimately have 1: "\<exists>results.
        map (extract_with_timeout loads) responses = map Inr results
      \<and> length results = length responses
      \<and> extract_all loads responses =
          Inr (concat (map (spec_items ''entities'') results),
               concat (map (spec_items ''relationships'') results))"
    using r by blast
  let ?E = "contribution ''entities'' loads" and ?R = "contribution ''relationships'' loads"
  have 2: "extract_all loads before = Inr (concat (map ?E before), concat (map ?R before))"
    "extract_all loads after = Inr (concat (map ?E after), concat (map ?R after))"
    by (rule extract_all_concat)+
  have 3: "extract_all loads (before @ Inl e # after) =
       Inr (concat (map ?E before) @ concat (map ?E after),
            concat (map ?R before) @ concat (map ?R after))"
    by (simp add: extract_all_concat contribution_failed)
  have 4: "extract_with_timeout loads (Inr content) = Inr (JObj kvs)
          \<and> extract_all loads (before @ Inr content # after)
              = Inr (concat (map ?E before) @ es @ concat (map ?E after),
                     concat (map ?R before) @ rs @ concat (map ?R after))"
    if "loads (clean_llm_text content) = Inr (JObj kvs)"
      "map_of kvs ''entities'' = Some (JArr es)"
      "map_of kvs ''relationships'' = Some (JArr rs)"
    using extract_success[of loads content kvs es rs] that by (simp add: extract_all_concat)
  from 1 2 3 4 show ?thesis by blast
qed

text \<open>
  The scenario of the specification: two entities and a relationship from the first
  chunk, one entity from the second, a timeout on the third.
\<close>

theorem extraction_aggregates_every_chunk_witness:
  "extract_all
     (\<lambda>s. if s = ''answer 1'' then
             Inr (JObj [(''entities'', JArr [JObj [(''name'', JStr ''Alice'')],
                                            JObj [(''name'', JStr ''Acme Corp'')]]),
                        (''relationships'',
                         JArr [JObj [(''source'', JStr ''Alice''),
                                     (''target'', JStr ''Acme Corp''),
                                     (''type'', JStr ''WORKED_AT'')]])])
           else if s = ''answer 2'' then
             Inr (JObj [(''entities'', JArr [JObj [(''name'', JStr ''alice'')]]),
                        (''relationships'', JArr [])])
           else Inl JSONDecodeError)
     [Inr ''answer 1'', Inr ''answer 2'', Inl TimeoutError]
   = Inr ([JObj [(''name'', JStr ''Alice'')], JObj [(''name'', JStr ''Acme Corp'')],
           JObj [(''name'', JStr ''alice'')]],
          [JObj [(''source'', JStr ''Alice''), (''target'', JStr ''Acme Corp''),
                 (''type'', JStr ''WORKED_AT'')]])"
  (is "extract_all ?L _ = _")
proof -
  have c: "clean_llm_text ''answer 1'' = ''answer 1''" "clean_llm_text ''answer 2'' = ''answer 2''"
    by (simp_all add: clean_llm_text_def strip_def rstrip_char_def isspace_def)
  have a: "extract_all ?L [Inr ''answer 2'', Inl TimeoutError]
             = Inr ([JObj [(''name'', JStr ''alice'')]], [])"
    by (simp add: extract_all_def extract_with_timeout_def extract_try_def
          parse_llm_json_def c chunk_items_def empty_result_def)
  have b: "extract_all ?L [] = Inr ([], [])"
    by (simp add: extract_all_def)
  show ?thesis
    using extraction_aggregates_every_chunk
      [of ?L "[]" "[]" "[Inr ''answer 2'', Inl TimeoutError]" TimeoutError "''answer 1''"
          "[(''entities'', JArr [JObj [(''name'', JStr ''Alice'')],
                                            JObj [(''name'', JStr ''Acme Corp'')]]),
                        (''relationships'',
                         JArr [JObj [(''source'', JStr ''Alice''),
                                     (''target'', JStr ''Acme Corp''),
                                     (''type'', JStr ''WORKED_AT'')]])]"
          "[JObj [(''name'', JStr ''Alice'')], JObj [(''name'', JStr ''Acme Corp'')]]"
          "[JObj [(''source'', JStr ''Alice''), (''target'', JStr ''Acme Corp''),
                                     (''type'', JStr ''WORKED_AT'')]]"]
      a b
    by (simp add: c)
qed

section \<open>Properties of the graph writer\<close>

lemma write_relationship_skip:
  assumes "is_relationship rel"
    and "rel_endpoint ''source'' rel = [] \<or> rel_endpoint ''target'' rel = []"
  shows "write_relationship execute_query upper rel st n = Inr (st, n)"
proof -
  from assms(1) obtain kvs where rel: "rel = JObj kvs" by (cases rel) auto
  from assms(1) obtain source where
    s: "py_strip (case map_of kvs ''source'' of None \<Rightarrow> JStr [] | Some v \<Rightarrow> v) = Inr source"
       "rel_endpoint ''source'' rel = source"
    unfolding rel by (auto simp: str_or_missing_def strip_Nil split: option.splits json.splits)
  from assms(1) obtain target where
    t: "py_strip (case map_of kvs ''target'' of None \<Rightarrow> JStr [] | Some v \<Rightarrow> v) = Inr target"
       "rel_endpoint ''target'' rel = target"
    unfolding rel by (auto simp: str_or_missing_def strip_Nil split: option.splits json.splits)
  from assms(1) obtain rel_type where
    ty: "py_rel_type upper (case map_of kvs ''type'' of None \<Rightarrow> JStr ''RELATED_TO'' | Some v \<Rightarrow> v)
           = Inr rel_type"
    unfolding rel by (auto simp: str_or_missing_def split: option.splits json.splits)
  from assms(2) s(2) t(2) have "source = [] \<or> target = []" by simp
  thus ?thesis
    unfolding write_relationship_def rel by (simp add: s(1) t(1) ty)
qed

lemma write_relationships_append:
  "write_relationships execute_query upper (xs @ ys) st n =
     (case write_relationships execute_query upper xs st n of
        Inl e \<Rightarrow> Inl e
      | Inr (st', n') \<Rightarrow> write_relationships execute_query upper ys st' n')"
  by (induction xs arbitrary: st n) (auto split: sum.splits)

text \<open>
  C8, as the code has it.  The claim as stated fails when the type of the relationship
  is not a string or its other end name is not one: lines 197 to 200 read and
  normalise all four fields before the test of line 202, and raise \<open>AttributeError\<close>.
  Amended: for a relationship that is a dictionary whose source, target and type are
  strings or missing, and whose source name or target name is empty after trimming,
  whatever the store does on a query, the step of the write loop returns normally with
  the state of the store and \<open>rels_created\<close> as they were, so it sends no query, counts
  nothing and raises nothing; and the whole loop behaves on a list with that
  relationship as on the list without it.
\<close>

theorem empty_endpoint_skipped:
  "is_relationship rel \<Longrightarrow>
   rel_endpoint ''source'' rel = [] \<or> rel_endpoint ''target'' rel = [] \<Longrightarrow>
   write_relationship execute_query upper rel st rels_created = Inr (st, rels_created)
   \<and> write_relationships execute_query upper (before @ rel # after) st0 n0 =
       write_relationships execute_query upper (before @ after) st0 n0"
proof -
  assume a: "is_relationship rel"
    "rel_endpoint ''source'' rel = [] \<or> rel_endpoint ''target'' rel = []"
  have skip: "write_relationship execute_query upper rel s n = Inr (s, n)" for s n
    by (rule write_relationship_skip[OF a])
  have "write_relationships execute_query upper (rel # after) s n =
          write_relationships execute_query upper after s n" for s n
    by (simp add: skip)
  hence "write_relationships execute_query upper (before @ rel # after) st0 n0 =
       write_relationships execute_query upper (before @ after) st0 n0"
    by (simp add: write_relationships_append split: sum.splits)
  with skip show ?thesis by simp
qed

text \<open>The witness runs the loop on a store that counts the queries it receives.\<close>

theorem empty_endpoint_skipped_witness:
  "is_relationship (JObj [(''source'', JStr ''  ''), (''target'', JStr ''Acme''),
                          (''type'', JStr ''WORKED_AT'')])
   \<and> rel_endpoint ''source'' (JObj [(''source'', JStr ''  ''), (''target'', JStr ''Acme''),
                          (''type'', JStr ''WORKED_AT'')]) = []
   \<and> write_relationship (\<lambda>q calls. (Inr [], Suc calls)) id
        (JObj [(''source'', JStr ''  ''), (''target'', JStr ''Acme''),
               (''type'', JStr ''WORKED_AT'')]) (0::nat) 0 = Inr (0, 0)
   \<and> write_relationships (\<lambda>q calls. (Inr [], Suc calls)) id
        [JObj [(''source'', JStr ''Alice''), (''target'', JStr ''Acme'')],
         JObj [(''source'', JStr ''  ''), (''target'', JStr ''Acme''),
               (''type'', JStr ''WORKED_AT'')],
         JObj [(''source'', JStr ''Bob''), (''target'', JStr ''Acme'')]] (0::nat) 0
       = Inr (2, 2)"
proof -
  have e: "rel_endpoint ''source'' (JObj [(''source'', JStr ''  ''), (''target'', JStr ''Acme''),
                          (''type'', JStr ''WORKED_AT'')]) = []"
    by (simp add: strip_def isspace_def)
  have r: "is_relationship (JObj [(''source'', JStr ''  ''), (''target'', JStr ''Acme''),
                          (''type'', JStr ''WORKED_AT'')])"
    by (simp add: str_or_missing_def)
  have w: "write_relationships (\<lambda>q calls. (Inr [], Suc calls)) id
        [JObj [(''source'', JStr ''Alice''), (''target'', JStr ''Acme'')],
         JObj [(''source'', JStr ''Bob''), (''target'', JStr ''Acme'')]] (0::nat) 0
       = Inr (2, 2)"
    by (simp add: write_relationship_def and_then_def strip_def isspace_def)
  show ?thesis
    using empty_endpoint_skipped[OF r, of "\<lambda>q calls. (Inr [], Suc calls)" id "0::nat" 0
        "[JObj [(''source'', JStr ''Alice''), (''target'', JStr ''Acme'')]]"
        "[JObj [(''source'', JStr ''Bob''), (''target'', JStr ''Acme'')]]" 0 0] e r w
    by simp
qed

text \<open>
  An empty source with the type \<open>null\<close>, and an empty source with the target \<open>null\<close>,
  each before a proper relationship, on a store that counts the queries it receives:
  the loop raises and the relationship behind is not written; alone, it is written.
\<close>

theorem empty_endpoint_skipped_counterexample:
  "rel_endpoint ''source''
     (JObj [(''source'', JStr []), (''target'', JStr ''Acme''), (''type'', JNull)]) = []
   \<and> write_relationships (\<lambda>q calls. (Inr [], Suc calls)) id
        [JObj [(''source'', JStr []), (''target'', JStr ''Acme''), (''type'', JNull)],
         JObj [(''source'', JStr ''Bob''), (''target'', JStr ''Acme'')]] (0::nat) 0
       = Inl AttributeError
   \<and> write_relationships (\<lambda>q calls. (Inr [], Suc calls)) id
        [JObj [(''source'', JStr []), (''target'', JNull)],
         JObj [(''source'', JStr ''Bob''), (''target'', JStr ''Acme'')]] (0::nat) 0
       = Inl AttributeError
   \<and> write_relationships (\<lambda>q calls. (Inr [], Suc calls)) id
        [JObj [(''source'', JStr ''Bob''), (''target'', JStr ''Acme'')]] (0::nat) 0
       = Inr (1, 1)"
  by (simp add: write_relationship_def strip_def isspace_def)

section \<open>Properties of the retrieval\<close>

lemma conn_line_null: "conn_line repr null_connection = Inr []"
  by (simp add: conn_line_def null_connection_def)

lemma conn_line_connection:
  "c \<in> set (connection g kind other) \<Longrightarrow> \<exists>l. conn_line repr c = Inr l"
  by (auto simp: connection_def conn_line_def split: option.splits)

lemma conn_line_store:
  assumes "c \<in> set (connections g name)"
  shows "\<exists>l. conn_line repr c = Inr l"
proof -
  from assms have "c = null_connection \<or> (\<exists>kind other. c \<in> set (connection g kind other))"
    unfolding connections_def Let_def by (auto split: if_splits)
  thus ?thesis using conn_line_null conn_line_connection by blast
qed

lemma conn_lines_total:
  "\<forall>c\<in>set cs. \<exists>l. conn_line repr c = Inr l \<Longrightarrow> \<exists>ls. conn_lines repr cs = Inr ls"
proof (induction cs)
  case Nil
  show ?case by simp
next
  case (Cons c cs)
  then obtain l ls where "conn_line repr c = Inr l" "conn_lines repr cs = Inr ls"
    by auto
  thus ?case by simp
qed

lemma connections_nonempty: "connections g name \<noteq> []"
  by (simp add: connections_def Let_def)

lemma render_entity_row:
  "\<exists>part. render_record repr (entity_row g n) = Inr part \<and> take 8 part = ''Entity: ''"
proof -
  obtain ls where ls: "conn_lines repr (connections g (fst n)) = Inr ls"
    using conn_lines_total[of "connections g (fst n)" repr] conn_line_store by blast
  show ?thesis
    by (simp add: render_record_def entity_row_def ls connections_nonempty)
qed

lemma render_rows:
  "\<exists>parts. render_records repr (map (entity_row g) ns) = Inr parts
     \<and> length parts = length ns \<and> (\<forall>p\<in>set parts. take 8 p = ''Entity: '')"
proof (induction ns)
  case Nil
  show ?case by simp
next
  case (Cons n ns)
  then obtain parts where p: "render_records repr (map (entity_row g) ns) = Inr parts"
    "length parts = length ns" "\<forall>p\<in>set parts. take 8 p = ''Entity: ''" by blast
  obtain part where q: "render_record repr (entity_row g n) = Inr part"
    "take 8 part = ''Entity: ''"
    using render_entity_row by blast
  have "render_records repr (map (entity_row g) (n # ns)) = Inr (part # parts)"
    by (simp add: p(1) q(1))
  with p q show ?case by simp
qed

lemma py_join_take:
  "parts \<noteq> [] \<Longrightarrow> length (hd parts) \<ge> k \<Longrightarrow> take k (py_join sep parts) = take k (hd parts)"
proof (cases parts)
  case Nil
  assume "parts \<noteq> []"
  with Nil show ?thesis by simp
next
  case (Cons p ps)
  assume "length (hd parts) \<ge> k"
  with Cons show ?thesis by (cases ps) auto
qed

lemma take8_length: "take 8 p = ''Entity: '' \<Longrightarrow> 8 \<le> length p"
proof -
  assume "take 8 p = ''Entity: ''"
  hence "length (take 8 p) = 8" by simp
  thus ?thesis by simp
qed

lemma joined_not_sentinel:
  assumes "parts \<noteq> []" and "\<forall>p\<in>set parts. take 8 p = ''Entity: ''"
  shows "py_join sep parts \<noteq> sentinel"
proof -
  from assms have h: "take 8 (hd parts) = ''Entity: ''" by simp
  hence "take 8 (py_join sep parts) = ''Entity: ''"
    using py_join_take[OF assms(1) take8_length[OF h], of sep] by simp
  moreover have "take 8 sentinel \<noteq> ''Entity: ''" by (simp add: sentinel_def)
  ultimately show ?thesis by auto
qed

text \<open>
  C6.  On a store without entities the retrieval returns the fixed sentinel string.
  On a store with entities of which none matches the query (case-insensitive substring
  match against name and description) it returns the rendering of the fallback sample:
  one part for each of the first 20 entities of the store at most, each with its
  neighbourhood, joined by blank lines; that text begins with \<open>Entity: \<close> and is not the
  sentinel.
\<close>

theorem retrieval_sentinel_and_fallback:
  "(nodes g = [] \<longrightarrow> retrieve_subgraph (neo4j_execute apoc) repr query g = Inr sentinel)
   \<and> (nodes g \<noteq> [] \<and> matching_nodes g query = [] \<longrightarrow>
        (\<exists>parts. render_records repr (map (entity_row g) (take 20 (nodes g))) = Inr parts
           \<and> length parts = min 20 (length (nodes g))
           \<and> retrieve_subgraph (neo4j_execute apoc) repr query g
               = Inr (py_join (newline @ newline) parts)
           \<and> py_join (newline @ newline) parts \<noteq> sentinel))"
proof -
  have 1: "retrieve_subgraph (neo4j_execute apoc) repr query g = Inr sentinel"
    if "nodes g = []"
    using that by (simp add: retrieve_subgraph_def matching_nodes_def)
  have 2: "\<exists>parts. render_records repr (map (entity_row g) (take 20 (nodes g))) = Inr parts
           \<and> length parts = min 20 (length (nodes g))
           \<and> retrieve_subgraph (neo4j_execute apoc) repr query g
               = Inr (py_join (newline @ newline) parts)
           \<and> py_join (newline @ newline) parts \<noteq> sentinel"
    if ne: "nodes g \<noteq> []" and nm: "matching_nodes g query = []"
  proof -
    obtain parts where p:
      "render_records repr (map (entity_row g) (take 20 (nodes g))) = Inr parts"
      "length parts = length (take 20 (nodes g))"
      "\<forall>p\<in>set parts. take 8 p = ''Entity: ''"
      using render_rows by blast
    from p(2) ne have pne: "parts \<noteq> []" by (cases "nodes g") auto
    have r: "retrieve_subgraph (neo4j_execute apoc) repr query g
               = Inr (py_join (newline @ newline) parts)"
      using pne by (simp add: retrieve_subgraph_def nm p(1))
    from p pne r joined_not_sentinel[OF pne p(3)] show ?thesis
      by (auto simp: min_def)
  qed
  from 1 2 show ?thesis by blast
qed

theorem retrieval_sentinel_and_fallback_witness:
  "nodes empty_graph = []
   \<and> retrieve_subgraph (neo4j_execute True) (\<lambda>v. []) ''acme'' empty_graph = Inr sentinel
   \<and> matching_nodes
        \<lparr>nodes = [(''Bob'', \<lparr>n_type = JStr ''PERSON'', n_description = JStr [],
                             n_document = ''cv.pdf''\<rparr>)], edges = []\<rparr> ''acme'' = []
   \<and> retrieve_subgraph (neo4j_execute True) (\<lambda>v. []) ''acme''
        \<lparr>nodes = [(''Bob'', \<lparr>n_type = JStr ''PERSON'', n_description = JStr [],
                             n_document = ''cv.pdf''\<rparr>)], edges = []\<rparr>
       = Inr ''Entity: Bob (Type: PERSON)''"
proof -
  have m: "matching_nodes
        \<lparr>nodes = [(''Bob'', \<lparr>n_type = JStr ''PERSON'', n_description = JStr [],
                             n_document = ''cv.pdf''\<rparr>)], edges = []\<rparr> ''acme'' = []"
    by code_simp
  have r: "render_records (\<lambda>v. [])
       (map (entity_row \<lparr>nodes = [(''Bob'', \<lparr>n_type = JStr ''PERSON'', n_description = JStr [],
                             n_document = ''cv.pdf''\<rparr>)], edges = []\<rparr>)
          (take 20 [(''Bob'', \<lparr>n_type = JStr ''PERSON'', n_description = JStr [],
                             n_document = ''cv.pdf''\<rparr>)]))
       = Inr [''Entity: Bob (Type: PERSON)'']"
    by (simp add: entity_row_def render_record_def connections_def conn_line_def
          null_connection_def)
  show ?thesis
    using retrieval_sentinel_and_fallback[of empty_graph True "\<lambda>v. []" "''acme''"]
      retrieval_sentinel_and_fallback
        [of "\<lparr>nodes = [(''Bob'', \<lparr>n_type = JStr ''PERSON'', n_description = JStr [],
                             n_document = ''cv.pdf''\<rparr>)], edges = []\<rparr>" True "\<lambda>v. []" "''acme''"]
      m r
    by (simp add: empty_graph_def)
qed

section \<open>The counts returned by the graph writer\<close>

text \<open>
  C1.  The counts are the numbers of queries that did not raise, not the numbers of
  writes that took effect.  In the end-to-end scenario of the specification (entities
  \<open>Alice\<close>, \<open>Acme Corp\<close> and, from a later chunk, \<open>alice\<close>; one relationship from
  \<open>Alice\<close> to \<open>Acme Corp\<close>) on an empty store, the nodes written are \<open>alice\<close> and
  \<open>Acme Corp\<close>, the relationship query matches no node named \<open>Alice\<close> and creates
  nothing, and the writer still reports one relationship created; with no entity at
  all the store stays empty and one relationship is reported.  This holds with and
  without the \<open>apoc\<close> procedure.
\<close>

theorem relationship_counted_without_edge:
  "write_graph (neo4j_execute apoc) upper ''cv.pdf''
     [JObj [(''name'', JStr ''Alice''), (''type'', JStr ''PERSON'')],
      JObj [(''name'', JStr ''Acme Corp''), (''type'', JStr ''COMPANY'')],
      JObj [(''name'', JStr ''alice''), (''type'', JStr ''PERSON'')]]
     [JObj [(''source'', JStr ''Alice''), (''target'', JStr ''Acme Corp''),
            (''type'', JStr ''WORKED_AT'')]]
     empty_graph
   = Inr (\<lparr>nodes =
            [(''alice'', \<lparr>n_type = JStr ''PERSON'', n_description = JStr [],
                           n_document = ''cv.pdf''\<rparr>),
             (''Acme Corp'', \<lparr>n_type = JStr ''COMPANY'', n_description = JStr [],
                               n_document = ''cv.pdf''\<rparr>)],
          edges = []\<rparr>, 2, 1)
   \<and> write_graph (neo4j_execute apoc) upper ''cv.pdf'' []
     [JObj [(''source'', JStr ''Alice''), (''target'', JStr ''Acme Corp''),
            (''type'', JStr ''WORKED_AT'')]]
     empty_graph
   = Inr (empty_graph, 0, 1)"
proof -
  have d: "deduplicate
     [JObj [(''name'', JStr ''Alice''), (''type'', JStr ''PERSON'')],
      JObj [(''name'', JStr ''Acme Corp''), (''type'', JStr ''COMPANY'')],
      JObj [(''name'', JStr ''alice''), (''type'', JStr ''PERSON'')]]
    = Inr [(''alice'', JObj [(''name'', JStr ''alice''), (''type'', JStr ''PERSON'')]),
           (''acme corp'', JObj [(''name'', JStr ''Acme Corp''), (''type'', JStr ''COMPANY'')])]"
    by code_simp
  have d0: "deduplicate [] = Inr []" by (simp add: deduplicate_def)
  have s: "strip ''Alice'' = ''Alice''" "strip ''Acme Corp'' = ''Acme Corp''"
    by (simp_all add: strip_def isspace_def)
  show ?thesis
    by (cases apoc)
       (simp_all add: write_graph_def d d0 unique_entities_def write_node_def node_query_def
          write_relationship_def s empty_graph_def merge_node_def has_node_def)
qed

end
